theory Spec2Isabelle
  imports Main
begin

section \<open>String primitives of the host language\<close>

text \<open>
  Strings are lists of bytes: an ASCII character is one byte, any other character is the
  bytes of its UTF-8 encoding. The source relies on a handful of built-in string
  methods; each is written out here as a recursive function. Case folding is ASCII case
  folding: the letters searched for by the source (\<open>p\<close>, \<open>d\<close>, \<open>f\<close> and the letters of
  the header keywords) have no other character folding onto them.
\<close>

definition toLowerChar :: "char \<Rightarrow> char" where
  "toLowerChar c =
     (case map_of (zip ''ABCDEFGHIJKLMNOPQRSTUVWXYZ'' ''abcdefghijklmnopqrstuvwxyz'') c of
        Some d \<Rightarrow> d
      | None \<Rightarrow> c)"

definition toLowerCase :: "string \<Rightarrow> string" where
  "toLowerCase s = map toLowerChar s"

text \<open>\<open>s.startsWith(p)\<close>, \<open>s.includes(p)\<close> (named \<open>includesStr\<close>: \<open>includes\<close> is reserved) and \<open>s.endsWith(p)\<close>.\<close>

fun startsWith :: "string \<Rightarrow> string \<Rightarrow> bool" where
  "startsWith s [] = True"
| "startsWith [] (p # ps) = False"
| "startsWith (c # cs) (p # ps) = (c = p \<and> startsWith cs ps)"

fun includesStr :: "string \<Rightarrow> string \<Rightarrow> bool" where
  "includesStr [] p = startsWith [] p"
| "includesStr (c # cs) p = (startsWith (c # cs) p \<or> includesStr cs p)"

definition endsWith :: "string \<Rightarrow> string \<Rightarrow> bool" where
  "endsWith s p = startsWith (rev s) (rev p)"

text \<open>
  \<open>s.lastIndexOf(c)\<close>: the greatest index holding \<open>c\<close>, or \<open>-1\<close>. The scan keeps
  the current index and the best index seen so far.
\<close>

fun lastIndexFrom :: "char \<Rightarrow> string \<Rightarrow> int \<Rightarrow> int \<Rightarrow> int" where
  "lastIndexFrom c [] i best = best"
| "lastIndexFrom c (x # xs) i best = lastIndexFrom c xs (i + 1) (if x = c then i else best)"

definition lastIndexOf :: "string \<Rightarrow> char \<Rightarrow> int" where
  "lastIndexOf s c = lastIndexFrom c s 0 (- 1)"

text \<open>
  White space, for \<open>s.trim()\<close> and for the class \<open>\s\<close> of a regular expression alike, is
  the tab, the line feed, the vertical tab, the form feed, the carriage return, the
  space, U+00A0, U+1680, U+2000 to U+200A, U+2028, U+2029, U+202F, U+205F, U+3000 and
  U+FEFF; each is listed by its encoding.
\<close>

definition whiteSpaceCodes :: "string list" where
  "whiteSpaceCodes =
     [[CHR 0x09], [CHR 0x0A], [CHR 0x0B], [CHR 0x0C], [CHR 0x0D], [CHR 0x20],
      [CHR 0xC2, CHR 0xA0],
      [CHR 0xE1, CHR 0x9A, CHR 0x80],
      [CHR 0xE2, CHR 0x80, CHR 0x80], [CHR 0xE2, CHR 0x80, CHR 0x81],
      [CHR 0xE2, CHR 0x80, CHR 0x82], [CHR 0xE2, CHR 0x80, CHR 0x83],
      [CHR 0xE2, CHR 0x80, CHR 0x84], [CHR 0xE2, CHR 0x80, CHR 0x85],
      [CHR 0xE2, CHR 0x80, CHR 0x86], [CHR 0xE2, CHR 0x80, CHR 0x87],
      [CHR 0xE2, CHR 0x80, CHR 0x88], [CHR 0xE2, CHR 0x80, CHR 0x89],
      [CHR 0xE2, CHR 0x80, CHR 0x8A],
      [CHR 0xE2, CHR 0x80, CHR 0xA8], [CHR 0xE2, CHR 0x80, CHR 0xA9],
      [CHR 0xE2, CHR 0x80, CHR 0xAF],
      [CHR 0xE2, CHR 0x81, CHR 0x9F],
      [CHR 0xE3, CHR 0x80, CHR 0x80],
      [CHR 0xEF, CHR 0xBB, CHR 0xBF]]"

text \<open>
  \<open>stripLeading ws s\<close> removes from the front of \<open>s\<close> every leading occurrence of one of
  the codes \<open>ws\<close>. \<open>s.trim()\<close> removes white space at both ends: from the front, and from
  the front of the reversed string with the codes reversed.
\<close>

fun stripLeading :: "string list \<Rightarrow> string \<Rightarrow> string" where
  "stripLeading ws [] = []"
| "stripLeading ws (c # cs) =
     (case find (startsWith (c # cs)) ws of
        Some w \<Rightarrow> stripLeading ws (drop (length w - 1) cs)
      | None \<Rightarrow> c # cs)"

definition trim :: "string \<Rightarrow> string" where
  "trim s = rev (stripLeading (map rev whiteSpaceCodes) (rev (stripLeading whiteSpaceCodes s)))"

section \<open>Base names of uploaded files\<close>

text \<open>
  \<open>fileBaseName\<close> is declared twice with the same body, in
  \<open>app/components/ui/AttachmentsUploader.tsx\<close> and in \<open>app/actions/attachments.ts\<close>:
  \<^verbatim>\<open>const idx = name.lastIndexOf('.'); return idx > 0 ? name.slice(0, idx) : name;\<close>
\<close>

definition fileBaseName :: "string \<Rightarrow> string" where
  "fileBaseName name =
     (let idx = lastIndexOf name (CHR ''.'')
      in if idx > 0 then take (nat idx) name else name)"

section \<open>Truthiness of optional strings\<close>

text \<open>
  A value of type \<open>string | null | undefined\<close> is a \<open>string option\<close>. The expression
  \<open>a || b\<close> yields \<open>b\<close> when \<open>a\<close> is absent or the empty string; \<open>a || null\<close> turns
  the empty string into an absent value; \<open>xs[0]\<close> is absent on the empty array; a
  \<open>null\<close> used as a property key reads the property called \<open>null\<close>.
\<close>

definition orElse :: "string option \<Rightarrow> string \<Rightarrow> string" where
  "orElse a b = (case a of Some s \<Rightarrow> if s = [] then b else s | None \<Rightarrow> b)"

definition orNull :: "string option \<Rightarrow> string option" where
  "orNull a = (case a of Some s \<Rightarrow> if s = [] then None else Some s | None \<Rightarrow> None)"

definition truthy :: "string option \<Rightarrow> bool" where
  "truthy a = (case a of Some s \<Rightarrow> s \<noteq> [] | None \<Rightarrow> False)"

definition firstOf :: "string list \<Rightarrow> string option" where
  "firstOf hs = (case hs of [] \<Rightarrow> None | h # _ \<Rightarrow> Some h)"

definition propKey :: "string option \<Rightarrow> string" where
  "propKey a = (case a of Some s \<Rightarrow> s | None \<Rightarrow> ''null'')"

section \<open>Column mapping inference (CsvUploader.tsx)\<close>

text \<open>
  The three regular expressions are anchored at both ends and case-insensitive:
  \<^verbatim>\<open>/^(email|e-mail|recipient|to|address)$/i\<close>,
  \<^verbatim>\<open>/^(name|full[_\s-]?name|first[_\s-]?name)$/i\<close>,
  \<^verbatim>\<open>/^(subject|title|headline|topic)$/i\<close>.
  A header passes the test when its lower-case form is one of the alternatives;
  \<open>optSepName pre\<close> is the alternative \<open>pre[_\s-]?name\<close>, with at most one character of
  the class between the two words.
\<close>

definition recipientPattern :: "string \<Rightarrow> bool" where
  "recipientPattern h =
     (toLowerCase h \<in> set [''email'', ''e-mail'', ''recipient'', ''to'', ''address''])"

definition optSepName :: "string \<Rightarrow> string \<Rightarrow> bool" where
  "optSepName pre l =
     (startsWith l pre \<and>
      (let r = drop (length pre) l
       in r = ''name'' \<or>
          list_ex (\<lambda>sep. r = sep @ ''name'') ([[CHR ''_''], [CHR ''-'']] @ whiteSpaceCodes)))"

definition namePattern :: "string \<Rightarrow> bool" where
  "namePattern h =
     (let l = toLowerCase h
      in l = ''name'' \<or> optSepName ''full'' l \<or> optSepName ''first'' l)"

definition subjectPattern :: "string \<Rightarrow> bool" where
  "subjectPattern h =
     (toLowerCase h \<in> set [''subject'', ''title'', ''headline'', ''topic''])"

definition guessRecipient :: "string list \<Rightarrow> string" where
  "guessRecipient hs = orElse (find recipientPattern hs) (orElse (firstOf hs) [])"

definition guessName :: "string list \<Rightarrow> string" where
  "guessName hs = orElse (find namePattern hs) (orElse (firstOf hs) [])"

definition guessSubject :: "string list \<Rightarrow> string option" where
  "guessSubject hs = orNull (find subjectPattern hs)"

definition DEFAULT_HEADERS :: "string list" where
  "DEFAULT_HEADERS = [''email'', ''name'']"

section \<open>Header keywords in the words of the specification\<close>

text \<open>
  Following the specification: a header names the recipient column when it equals, as a
  whole string and ignoring case, one of five keywords, and the subject column when it
  equals one of four.
\<close>

definition equalsIgnoringCase :: "string \<Rightarrow> string \<Rightarrow> bool" where
  "equalsIgnoringCase a b = (toLowerCase a = toLowerCase b)"

definition spec_isRecipientHeader :: "string \<Rightarrow> bool" where
  "spec_isRecipientHeader h =
     list_ex (equalsIgnoringCase h) [''email'', ''e-mail'', ''recipient'', ''to'', ''address'']"

definition spec_isSubjectHeader :: "string \<Rightarrow> bool" where
  "spec_isSubjectHeader h =
     list_ex (equalsIgnoringCase h) [''subject'', ''title'', ''headline'', ''topic'']"

section \<open>The recipient table and its column mapping (CsvUploader.tsx)\<close>

text \<open>
  A row is a \<open>Record<string, string>\<close>, kept as the map of its cells. The mapping fields \<open>recipient\<close> and \<open>name\<close>
  are declared as strings, but \<open>onChangeSelect\<close> stores \<open>value || null\<close> under a cast,
  so all three fields can be absent at run time.
\<close>

type_synonym csvRow = "string \<rightharpoonup> string"

record ParsedCsv =
  headers :: "string list"
  rows :: "csvRow list"
  rowCount :: nat

record CsvMapping =
  recipient :: "string option"
  name :: "string option"
  subject :: "string option"

datatype MappingKey = KeyRecipient | KeyName | KeySubject

text \<open>
  The component state: the \<open>useState\<close> cells of \<open>CsvUploader\<close>. Every handler takes
  the state and returns the new state together with the argument of its call of
  \<open>onParsed\<close>, if it makes one. \<open>onParsed\<close> hands the table and the mapping to the parent,
  which feeds the reconciliation.
\<close>

record UploaderState =
  csv :: "ParsedCsv option"
  mapping :: "CsvMapping option"
  error :: "string option"
  fileName :: string
  showManualEntry :: bool
  manualRow :: csvRow

type_synonym Parsed = "(ParsedCsv \<times> CsvMapping) option"

definition initialState :: "CsvMapping option \<Rightarrow> UploaderState" where
  "initialState currentMapping =
     \<lparr>csv = None, mapping = currentMapping, error = None, fileName = [],
      showManualEntry = False, manualRow = Map.empty\<rparr>"

text \<open>
  The parser calls back either \<open>complete\<close>, with the data rows and \<open>meta.fields\<close>,
  or \<open>error\<close>, with an object that may carry a message. The rows are objects, so
  \<open>filter(Boolean)\<close> keeps them all. \<open>handleFile\<close> first clears the error and stores the
  file name, then acts on the callback; the callback reads the mapping the handler was
  created with.
\<close>

datatype ParseOutcome =
    Complete "csvRow list" "string list option"
  | ParseError "string option"

definition nextMappingOf :: "CsvMapping option \<Rightarrow> string list \<Rightarrow> CsvMapping" where
  "nextMappingOf m hs =
     \<lparr>recipient = Some (orElse (Option.bind m recipient) (guessRecipient hs)),
      name = Some (orElse (Option.bind m name) (guessName hs)),
      subject = (case Option.bind m subject of Some x \<Rightarrow> Some x | None \<Rightarrow> guessSubject hs)\<rparr>"

definition handleFile :: "UploaderState \<Rightarrow> string \<Rightarrow> ParseOutcome \<Rightarrow> UploaderState \<times> Parsed" where
  "handleFile s fname outcome =
     (let s1 = s\<lparr>error := None, fileName := fname\<rparr>
      in case outcome of
           Complete data flds \<Rightarrow>
             (let rs = data;
                  hs = (case flds of Some fs \<Rightarrow> fs | None \<Rightarrow> [])
              in if length hs = 0
                 then (s1\<lparr>error :=
                         Some ''No headers found. Ensure the first row contains column names.''\<rparr>,
                       None)
                 else
                   (let parsed = \<lparr>headers = hs, rows = rs, rowCount = length rs\<rparr>;
                        nextMapping = nextMappingOf (mapping s) hs
                    in (s1\<lparr>csv := Some parsed, mapping := Some nextMapping\<rparr>,
                        Some (parsed, nextMapping))))
         | ParseError msg \<Rightarrow>
             (s1\<lparr>error := Some (orElse msg ''Failed to parse CSV'')\<rparr>, None))"

definition emptyMapping :: CsvMapping where
  "emptyMapping = \<lparr>recipient = Some [], name = Some [], subject = None\<rparr>"

definition onChangeSelect :: "UploaderState \<Rightarrow> MappingKey \<Rightarrow> string \<Rightarrow> UploaderState \<times> Parsed" where
  "onChangeSelect s k v =
     (case csv s of
        None \<Rightarrow> (s, None)
      | Some c \<Rightarrow>
          (let base = (case mapping s of Some m \<Rightarrow> m | None \<Rightarrow> emptyMapping);
               next = (case k of
                         KeyRecipient \<Rightarrow> base\<lparr>recipient := orNull (Some v)\<rparr>
                       | KeyName \<Rightarrow> base\<lparr>name := orNull (Some v)\<rparr>
                       | KeySubject \<Rightarrow> base\<lparr>subject := orNull (Some v)\<rparr>)
           in (s\<lparr>mapping := Some next\<rparr>, Some (c, next))))"

text \<open>
  The manual entry handlers. \<open>blankRow\<close> is the \<open>forEach\<close> loop that gives every header
  an empty cell; \<open>currentHeaders\<close> and \<open>recipientKey\<close> are the locals \<open>headers\<close> and
  \<open>recipientKey\<close> of \<open>addManualRow\<close>; \<open>defaultMapping\<close> and \<open>emptyMapping\<close> are the two
  mapping literals the handlers fall back to.
\<close>

definition blankRow :: "string list \<Rightarrow> csvRow" where
  "blankRow hs = fold (\<lambda>h r. r(h \<mapsto> [])) hs Map.empty"

definition defaultMapping :: CsvMapping where
  "defaultMapping = \<lparr>recipient = Some ''email'', name = Some ''name'', subject = None\<rparr>"

definition initializeManualEntry :: "UploaderState \<Rightarrow> UploaderState" where
  "initializeManualEntry s =
     (case csv s of
        None \<Rightarrow>
          s\<lparr>csv := Some \<lparr>headers = DEFAULT_HEADERS, rows = [], rowCount = 0\<rparr>,
            mapping := Some defaultMapping,
            manualRow := [''email'' \<mapsto> [], ''name'' \<mapsto> []],
            showManualEntry := True\<rparr>
      | Some c \<Rightarrow> s\<lparr>manualRow := blankRow (headers c), showManualEntry := True\<rparr>)"

definition currentHeaders :: "UploaderState \<Rightarrow> string list" where
  "currentHeaders s = (case csv s of Some c \<Rightarrow> headers c | None \<Rightarrow> DEFAULT_HEADERS)"

definition recipientKey :: "UploaderState \<Rightarrow> string" where
  "recipientKey s =
     orElse (recipient (case mapping s of Some m \<Rightarrow> m | None \<Rightarrow> defaultMapping)) ''email''"

definition addManualRow :: "UploaderState \<Rightarrow> UploaderState \<times> Parsed" where
  "addManualRow s =
     (let hs = currentHeaders s;
          currentMapping = (case mapping s of Some m \<Rightarrow> m | None \<Rightarrow> defaultMapping)
      in if \<not> truthy (map_option trim (manualRow s (recipientKey s)))
         then (s\<lparr>error := Some ''Email/recipient field is required.''\<rparr>, None)
         else
           (let newRows = (case csv s of Some c \<Rightarrow> rows c | None \<Rightarrow> []) @ [manualRow s];
                parsed = \<lparr>headers = hs, rows = newRows, rowCount = length newRows\<rparr>
            in (s\<lparr>csv := Some parsed, manualRow := blankRow hs, error := None\<rparr>,
                Some (parsed, currentMapping))))"

definition cancelManualEntry :: "UploaderState \<Rightarrow> UploaderState" where
  "cancelManualEntry s = s\<lparr>showManualEntry := False, manualRow := Map.empty, error := None\<rparr>"

text \<open>The inline handlers: typing into a cell, the Delete button of a row, Reset.\<close>

definition editCell :: "UploaderState \<Rightarrow> string \<Rightarrow> string \<Rightarrow> UploaderState" where
  "editCell s h v = s\<lparr>manualRow := (manualRow s)(h \<mapsto> v)\<rparr>"

definition deleteRow :: "UploaderState \<Rightarrow> nat \<Rightarrow> UploaderState \<times> Parsed" where
  "deleteRow s rowIndex =
     (case csv s of
        None \<Rightarrow> (s, None)
      | Some c \<Rightarrow>
          (let newRows = map snd (filter (\<lambda>p. fst p \<noteq> rowIndex) (enumerate 0 (rows c)));
               parsed = \<lparr>headers = headers c, rows = newRows, rowCount = length newRows\<rparr>
           in (s\<lparr>csv := Some parsed\<rparr>,
               (case mapping s of Some m \<Rightarrow> Some (parsed, m) | None \<Rightarrow> None))))"

definition resetAll :: "UploaderState \<Rightarrow> UploaderState" where
  "resetAll s =
     \<lparr>csv = None, mapping = None, error = None, fileName = [],
      showManualEntry = False, manualRow = Map.empty\<rparr>"

section \<open>The row-count invariant\<close>

text \<open>The table of a state, when there is one, records as its row count the number of its rows.\<close>

definition tableInvariant :: "UploaderState \<Rightarrow> bool" where
  "tableInvariant s = (case csv s of None \<Rightarrow> True | Some c \<Rightarrow> rowCount c = length (rows c))"

section \<open>The attachment index (AttachmentsUploader.tsx)\<close>

text \<open>
  \<open>AttachIndex\<close> is a \<open>Record<string, AttachmentEntry[]>\<close>, a plain object. It is kept as
  the list of its own properties in the order \<open>Object.entries\<close> and \<open>Object.values\<close>
  enumerate them, since the reconciliation walks it in that order.
\<close>

record AttachmentEntry =
  filename :: string
  contentBase64 :: string
  contentType :: "string option"
  sizeBytes :: "int option"

type_synonym AttachIndex = "(string \<times> AttachmentEntry list) list"

fun lookupBucket :: "AttachIndex \<Rightarrow> string \<Rightarrow> AttachmentEntry list option" where
  "lookupBucket [] k = None"
| "lookupBucket ((k', arr) # rest) k = (if k' = k then Some arr else lookupBucket rest k)"

text \<open>
  Reading \<open>next[k]\<close> on a plain object yields the own property \<open>k\<close> when there is one,
  and otherwise looks \<open>k\<close> up on \<open>Object.prototype\<close>: for the twelve names below it
  yields a function (for \<open>__proto__\<close> the prototype object), and \<open>undefined\<close> for any other
  name.
\<close>

definition objectPrototypeKeys :: "string list" where
  "objectPrototypeKeys =
     [''constructor'', ''__defineGetter__'', ''__defineSetter__'', ''hasOwnProperty'',
      ''__lookupGetter__'', ''__lookupSetter__'', ''isPrototypeOf'', ''propertyIsEnumerable'',
      ''toString'', ''valueOf'', ''__proto__'', ''toLocaleString'']"

datatype PropertyRead = OwnValue "AttachmentEntry list" | InheritedValue | Undefined

definition readBucket :: "AttachIndex \<Rightarrow> string \<Rightarrow> PropertyRead" where
  "readBucket idx k =
     (case lookupBucket idx k of
        Some arr \<Rightarrow> OwnValue arr
      | None \<Rightarrow> if k \<in> set objectPrototypeKeys then InheritedValue else Undefined)"

text \<open>
  Writing \<open>next[k] = arr\<close>. An existing own property keeps its place. A new one is
  enumerated after the properties there are, unless \<open>k\<close> is an array index (the decimal
  numeral, without leading zero, of a number below \<open>2^32 - 1\<close>): array indices come
  first, in ascending numeric order.
\<close>

definition digitOf :: "char \<Rightarrow> nat option" where
  "digitOf c = map_of (zip ''0123456789'' [0, 1, 2, 3, 4, 5, 6, 7, 8, 9]) c"

fun decimalValue :: "string \<Rightarrow> nat \<Rightarrow> nat option" where
  "decimalValue [] acc = Some acc"
| "decimalValue (c # cs) acc =
     (case digitOf c of Some d \<Rightarrow> decimalValue cs (10 * acc + d) | None \<Rightarrow> None)"

definition arrayIndex :: "string \<Rightarrow> nat option" where
  "arrayIndex k =
     (case k of
        [] \<Rightarrow> None
      | c # cs \<Rightarrow>
          if c = CHR ''0'' \<and> cs \<noteq> [] then None
          else (case decimalValue k 0 of
                  Some n \<Rightarrow> if n < 4294967295 then Some n else None
                | None \<Rightarrow> None))"

fun replaceBucket :: "string \<Rightarrow> AttachmentEntry list \<Rightarrow> AttachIndex \<Rightarrow> AttachIndex" where
  "replaceBucket k arr [] = []"
| "replaceBucket k arr ((k', arr') # rest) =
     (if k' = k then (k, arr) # rest else (k', arr') # replaceBucket k arr rest)"

fun insertIndexKey ::
  "nat \<Rightarrow> string \<Rightarrow> AttachmentEntry list \<Rightarrow> AttachIndex \<Rightarrow> AttachIndex" where
  "insertIndexKey n k arr [] = [(k, arr)]"
| "insertIndexKey n k arr ((k', arr') # rest) =
     (case arrayIndex k' of
        Some n' \<Rightarrow>
          if n' < n then (k', arr') # insertIndexKey n k arr rest
          else (k, arr) # (k', arr') # rest
      | None \<Rightarrow> (k, arr) # (k', arr') # rest)"

definition assignBucket :: "string \<Rightarrow> AttachmentEntry list \<Rightarrow> AttachIndex \<Rightarrow> AttachIndex" where
  "assignBucket k arr idx =
     (case lookupBucket idx k of
        Some old \<Rightarrow> replaceBucket k arr idx
      | None \<Rightarrow>
          (case arrayIndex k of
             Some n \<Rightarrow> insertIndexKey n k arr idx
           | None \<Rightarrow> idx @ [(k, arr)]))"

section \<open>Reconciliation (AttachmentsUploader.tsx, rowsNameSet and computed)\<close>

text \<open>
  The name normaliser \<open>normalizeNameKey\<close> is imported from a module that is not part of
  the sources at hand; it is a parameter \<open>norm\<close> of everything that calls it. The set
  \<open>rowsNameSet\<close> is only ever asked for membership, so it is kept as the list of the keys
  added to it.
\<close>

definition rowsNameSet ::
  "(string \<Rightarrow> string) \<Rightarrow> ParsedCsv option \<Rightarrow> CsvMapping option \<Rightarrow> string list" where
  "rowsNameSet norm c m =
     (case c of
        None \<Rightarrow> []
      | Some t \<Rightarrow>
          (case m of
             None \<Rightarrow> []
           | Some mp \<Rightarrow> map (\<lambda>r. norm (orElse (r (propKey (name mp))) [])) (rows t)))"

definition originalNameOf ::
  "(string \<Rightarrow> string) \<Rightarrow> ParsedCsv option \<Rightarrow> CsvMapping option \<Rightarrow> string \<Rightarrow> string" where
  "originalNameOf norm c m k =
     (let col = orElse (Option.bind m name) []
      in orElse
           (Option.bind
              (Option.bind c (\<lambda>t. find (\<lambda>r. norm (orElse (r col) []) = k) (rows t)))
              (\<lambda>r. r col))
           k)"

record Computed =
  files :: int
  matched :: int
  unmatched :: int
  unmatchedFiles :: "string list"
  matchedPairs :: "(string \<times> string list) list"

text \<open>
  The \<open>for ... of Object.entries(value)\<close> loop, with its three accumulators
  \<open>matched\<close>, \<open>unmatched\<close> and \<open>matchedPairs\<close>.
\<close>

fun computedLoop ::
  "(string \<Rightarrow> bool) \<Rightarrow> (string \<Rightarrow> string) \<Rightarrow> AttachIndex \<Rightarrow>
   int \<times> string list \<times> (string \<times> string list) list \<Rightarrow>
   int \<times> string list \<times> (string \<times> string list) list" where
  "computedLoop has orig [] acc = acc"
| "computedLoop has orig ((k, arr) # rest) (m, u, p) =
     computedLoop has orig rest
       (if has k
        then (m + int (length arr), u, p @ [(orig k, map filename arr)])
        else (m, u @ map filename arr, p))"

definition computed ::
  "(string \<Rightarrow> string) \<Rightarrow> ParsedCsv option \<Rightarrow> CsvMapping option \<Rightarrow> AttachIndex \<Rightarrow> Computed" where
  "computed norm c m val =
     (let total = fold (\<lambda>arr acc. acc + int (length arr)) (map snd val) 0;
          nameSet = rowsNameSet norm c m
      in case computedLoop (\<lambda>k. k \<in> set nameSet) (originalNameOf norm c m) val (0, [], []) of
           (mt, um, prs) \<Rightarrow>
             \<lparr>files = total, matched = mt, unmatched = total - mt,
              unmatchedFiles = um, matchedPairs = prs\<rparr>)"

section \<open>Batch policy (AttachmentsUploader.tsx, largePdfDetected)\<close>

text \<open>
  The test of one entry and the two nested \<open>some\<close> over the buckets and their entries.
  The guards \<open>Array.isArray(arr)\<close> and \<open>!entry\<close> never fire on a value of the declared
  type. An absent size reads as 0, an absent content type as the empty string.
\<close>

definition largePdfEntry :: "AttachmentEntry \<Rightarrow> bool" where
  "largePdfEntry entry =
     (let lo = 1024 * 1024;
          hi = 2 * 1024 * 1024;
          size = (case sizeBytes entry of Some n \<Rightarrow> n | None \<Rightarrow> 0);
          fname = orElse (Some (toLowerCase (filename entry))) [];
          mime = toLowerCase (orElse (contentType entry) []);
          isPdf = (includesStr mime ''pdf'' \<or> endsWith fname ''.pdf'')
      in isPdf \<and> size \<ge> lo \<and> size \<le> hi)"

definition largePdfDetected :: "AttachIndex \<Rightarrow> bool" where
  "largePdfDetected val = list_ex (\<lambda>arr. list_ex largePdfEntry arr) (map snd val)"

section \<open>The batch policy in the words of the specification\<close>

text \<open>
  These three predicates follow the wording of the specification, not the code: a
  declared content type that contains \<open>pdf\<close> in any mix of cases, a file name that ends
  in \<open>.pdf\<close> in any mix of cases, and a declared size within 1 MiB and 2 MiB inclusive.
\<close>

definition pdfLetters :: "char \<Rightarrow> char \<Rightarrow> char \<Rightarrow> bool" where
  "pdfLetters a b c =
     ((a = CHR ''p'' \<or> a = CHR ''P'') \<and> (b = CHR ''d'' \<or> b = CHR ''D'')
      \<and> (c = CHR ''f'' \<or> c = CHR ''F''))"

definition spec_declaresPdf :: "string option \<Rightarrow> bool" where
  "spec_declaresPdf t = (\<exists>u a b c v. t = Some (u @ [a, b, c] @ v) \<and> pdfLetters a b c)"

definition spec_namedPdf :: "string \<Rightarrow> bool" where
  "spec_namedPdf fn = (\<exists>u a b c. fn = u @ [CHR ''.'', a, b, c] \<and> pdfLetters a b c)"

definition spec_sizeInRange :: "int option \<Rightarrow> bool" where
  "spec_sizeInRange z = (\<exists>n. z = Some n \<and> 1048576 \<le> n \<and> n \<le> 2097152)"

section \<open>Ingesting uploaded files (actions/attachments.ts and AttachmentsUploader.tsx)\<close>

text \<open>
  An uploaded file shows its name, its declared type (empty when none) and its size.
  Reading and encoding its content is an effect that can throw: it is the parameter
  \<open>toBase64\<close>, with \<open>None\<close> for a throw inside the \<open>try\<close> block.
\<close>

record UploadFile =
  file_name :: string
  file_type :: string
  file_size :: "int option"

definition entryOf :: "UploadFile \<Rightarrow> string \<Rightarrow> AttachmentEntry" where
  "entryOf f content =
     \<lparr>filename = file_name f, contentBase64 = content,
      contentType = orNull (Some (file_type f)), sizeBytes = file_size f\<rparr>"

definition failedLabel :: "UploadFile \<Rightarrow> string" where
  "failedLabel f = orElse (Some (file_name f)) ''(unknown)''"

text \<open>The server action: the values posted under \<open>files\<close>, of which the file-like ones are kept.\<close>

datatype FormValue = FileValue UploadFile | TextValue string

fun isFileLike :: "FormValue \<Rightarrow> bool" where
  "isFileLike (FileValue f) = True"
| "isFileLike (TextValue t) = False"

fun asFile :: "FormValue \<Rightarrow> UploadFile list" where
  "asFile (FileValue f) = [f]"
| "asFile (TextValue t) = []"

datatype UploadAttachmentsResult =
    UploadOk "(string \<times> AttachmentEntry) list" "string list"
  | UploadError string

fun actionLoop ::
  "(string \<Rightarrow> string) \<Rightarrow> (UploadFile \<Rightarrow> string option) \<Rightarrow> UploadFile list \<Rightarrow>
   (string \<times> AttachmentEntry) list \<Rightarrow> string list \<Rightarrow>
   (string \<times> AttachmentEntry) list \<times> string list" where
  "actionLoop norm toBase64 [] items failed = (items, failed)"
| "actionLoop norm toBase64 (f # fs) items failed =
     (case toBase64 f of
        Some content \<Rightarrow>
          actionLoop norm toBase64 fs
            (items @ [(norm (fileBaseName (file_name f)), entryOf f content)]) failed
      | None \<Rightarrow> actionLoop norm toBase64 fs items (failed @ [failedLabel f]))"

definition uploadAttachmentsAction ::
  "(string \<Rightarrow> string) \<Rightarrow> (UploadFile \<Rightarrow> string option) \<Rightarrow> FormValue list \<Rightarrow>
   UploadAttachmentsResult" where
  "uploadAttachmentsAction norm toBase64 input =
     (let fs = concat (map asFile (filter isFileLike input))
      in if length fs = 0 then UploadError ''No files provided''
         else (case actionLoop norm toBase64 fs [] [] of
                 (items, failed) \<Rightarrow> UploadOk items failed))"

text \<open>
  The client handler \<open>onUpload\<close>: it returns at once for an empty file list; otherwise it
  copies the index, runs the loop, sets the upload error from the failed names and
  calls \<open>onChange\<close> with the new index. The outcome records the upload error, the
  argument of \<open>onChange\<close> and the local list \<open>failed\<close>. In the loop the expression
  \<open>[...(next[normalized] || []), entry]\<close> spreads the value read: an own bucket or, for
  \<open>undefined\<close>, the empty array. A value inherited from the prototype is truthy and not
  iterable, so the spread throws inside the \<open>try\<close> and the file goes to \<open>failed\<close>.
\<close>

fun onUploadLoop ::
  "(string \<Rightarrow> string) \<Rightarrow> (UploadFile \<Rightarrow> string option) \<Rightarrow> UploadFile list \<Rightarrow>
   AttachIndex \<Rightarrow> string list \<Rightarrow> AttachIndex \<times> string list" where
  "onUploadLoop norm toBase64 [] next failed = (next, failed)"
| "onUploadLoop norm toBase64 (f # fs) next failed =
     (case toBase64 f of
        Some content \<Rightarrow>
          (let normalized = norm (fileBaseName (file_name f));
               entry = entryOf f content
           in case readBucket next normalized of
                OwnValue arr \<Rightarrow>
                  onUploadLoop norm toBase64 fs (assignBucket normalized (arr @ [entry]) next) failed
              | Undefined \<Rightarrow>
                  onUploadLoop norm toBase64 fs (assignBucket normalized ([] @ [entry]) next) failed
              | InheritedValue \<Rightarrow>
                  onUploadLoop norm toBase64 fs next (failed @ [failedLabel f]))
      | None \<Rightarrow> onUploadLoop norm toBase64 fs next (failed @ [failedLabel f]))"

fun joinWith :: "string \<Rightarrow> string list \<Rightarrow> string" where
  "joinWith sep [] = []"
| "joinWith sep [x] = x"
| "joinWith sep (x # y # ys) = x @ sep @ joinWith sep (y # ys)"

definition uploadErrorMessage :: "string list \<Rightarrow> string" where
  "uploadErrorMessage failed =
     ''Failed: '' @ joinWith '', '' (take 6 failed)
       @ (if length failed > 6 then [CHR 0xE2, CHR 0x80, CHR 0xA6] else [])"

record UploadOutcome =
  uploadError :: "string option"
  onChangeArg :: AttachIndex
  failedNames :: "string list"

definition onUpload ::
  "(string \<Rightarrow> string) \<Rightarrow> (UploadFile \<Rightarrow> string option) \<Rightarrow> AttachIndex \<Rightarrow>
   UploadFile list \<Rightarrow> UploadOutcome option" where
  "onUpload norm toBase64 val fs =
     (if length fs = 0 then None
      else (case onUploadLoop norm toBase64 fs val [] of
              (next, failed) \<Rightarrow>
                Some \<lparr>uploadError =
                        (if length failed \<noteq> 0 then Some (uploadErrorMessage failed) else None),
                      onChangeArg = next, failedNames = failed\<rparr>))"

section \<open>Properties of the string primitives\<close>

lemma lastIndexFrom_absent:
  "c \<notin> set s \<Longrightarrow> lastIndexFrom c s i best = best"
  by (induction s arbitrary: i best) auto

lemma lastIndexFrom_last:
  "c \<notin> set e \<Longrightarrow> lastIndexFrom c (b @ c # e) i best = i + int (length b)"
  by (induction b arbitrary: i best) (auto simp: lastIndexFrom_absent)

lemma lastIndexOf_absent: "c \<notin> set s \<Longrightarrow> lastIndexOf s c = - 1"
  by (simp add: lastIndexOf_def lastIndexFrom_absent)

lemma lastIndexOf_last: "c \<notin> set e \<Longrightarrow> lastIndexOf (b @ c # e) c = int (length b)"
  by (simp add: lastIndexOf_def lastIndexFrom_last)

lemma startsWith_iff: "startsWith s p \<longleftrightarrow> (\<exists>v. s = p @ v)"
  by (induction s p rule: startsWith.induct) auto

lemma includesStr_iff: "includesStr s p \<longleftrightarrow> (\<exists>u v. s = u @ p @ v)"
proof (induction s)
  case Nil
  then show ?case by (cases p) auto
next
  case (Cons c cs)
  show ?case
  proof
    assume "includesStr (c # cs) p"
    then consider "startsWith (c # cs) p" | "includesStr cs p" by auto
    then show "\<exists>u v. c # cs = u @ p @ v"
    proof cases
      case 1
      then obtain v where "c # cs = p @ v" by (auto simp: startsWith_iff)
      then have "c # cs = [] @ p @ v" by simp
      then show ?thesis by blast
    next
      case 2
      then obtain u v where "cs = u @ p @ v" using Cons.IH by auto
      then have "c # cs = (c # u) @ p @ v" by simp
      then show ?thesis by blast
    qed
  next
    assume "\<exists>u v. c # cs = u @ p @ v"
    then obtain u v where uv: "c # cs = u @ p @ v" by auto
    show "includesStr (c # cs) p"
    proof (cases u)
      case Nil
      with uv have "startsWith (c # cs) p" by (auto simp: startsWith_iff)
      then show ?thesis by simp
    next
      case (Cons a u')
      with uv have "cs = u' @ p @ v" by simp
      then have "includesStr cs p" using Cons.IH by blast
      then show ?thesis by simp
    qed
  qed
qed

lemma endsWith_iff: "endsWith s p \<longleftrightarrow> (\<exists>u. s = u @ p)"
proof -
  have "endsWith s p \<longleftrightarrow> (\<exists>v. rev s = rev p @ v)"
    by (simp add: endsWith_def startsWith_iff)
  also have "\<dots> \<longleftrightarrow> (\<exists>u. s = u @ p)"
  proof
    assume "\<exists>v. rev s = rev p @ v"
    then obtain v where "rev s = rev p @ v" by auto
    then have "rev (rev s) = rev (rev p @ v)" by simp
    then have "s = rev v @ p" by simp
    then show "\<exists>u. s = u @ p" by blast
  next
    assume "\<exists>u. s = u @ p"
    then obtain u where "s = u @ p" by auto
    then have "rev s = rev p @ rev u" by simp
    then show "\<exists>v. rev s = rev p @ v" by blast
  qed
  finally show ?thesis .
qed

lemma toLowerChar_p: "toLowerChar c = CHR ''p'' \<longleftrightarrow> c = CHR ''p'' \<or> c = CHR ''P''"
  by (simp add: toLowerChar_def)

lemma toLowerChar_d: "toLowerChar c = CHR ''d'' \<longleftrightarrow> c = CHR ''d'' \<or> c = CHR ''D''"
  by (simp add: toLowerChar_def)

lemma toLowerChar_f: "toLowerChar c = CHR ''f'' \<longleftrightarrow> c = CHR ''f'' \<or> c = CHR ''F''"
  by (simp add: toLowerChar_def)

lemma toLowerChar_dot: "toLowerChar c = CHR ''.'' \<longleftrightarrow> c = CHR ''.''"
  by (simp add: toLowerChar_def)

text \<open>
  Trimming on a few strings: a lone U+00A0, a string framed by U+FEFF and U+2028, and
  spaces inside a string, which stay.
\<close>

lemma trim_examples:
  "trim [CHR 0xC2, CHR 0xA0] = []"
  "trim ([CHR 0xEF, CHR 0xBB, CHR 0xBF] @ ''x'' @ [CHR 0xE2, CHR 0x80, CHR 0xA8]) = ''x''"
  "trim '' a b '' = ''a b''"
  "trim [] = []"
  by (simp_all add: trim_def whiteSpaceCodes_def)

lemma namePattern_examples:
  "namePattern (''Full'' @ [CHR 0xC2, CHR 0xA0] @ ''Name'')"
  "namePattern ''first_name''"
  "namePattern ''FullName''"
  "\<not> namePattern ''full__name''"
  by (simp_all add: namePattern_def optSepName_def whiteSpaceCodes_def toLowerCase_def
      toLowerChar_def)

section \<open>Conservation of the reconciliation counts\<close>

lemma fold_total:
  "fold (\<lambda>arr acc. acc + int (length arr)) xs a = a + (\<Sum>arr\<leftarrow>xs. int (length arr))"
  by (induction xs arbitrary: a) auto

text \<open>
  What the loop adds to \<open>matched\<close> and what it adds to the unmatched list always sum
  to the number of entries it walked over.
\<close>

lemma computedLoop_counts:
  "computedLoop has orig val (m, u, p) = (m', u', p') \<Longrightarrow>
   (m' - m) + (int (length u') - int (length u)) = (\<Sum>arr\<leftarrow>map snd val. int (length arr))"
proof (induction val arbitrary: m u p)
  case Nil
  then show ?case by simp
next
  case (Cons kv rest)
  obtain k arr where kv: "kv = (k, arr)" by (cases kv)
  show ?case
  proof (cases "has k")
    case True
    with Cons.prems kv
    have "computedLoop has orig rest (m + int (length arr), u, p @ [(orig k, map filename arr)])
            = (m', u', p')"
      by simp
    from Cons.IH [OF this] show ?thesis by (simp add: kv)
  next
    case False
    with Cons.prems kv
    have "computedLoop has orig rest (m, u @ map filename arr, p) = (m', u', p')"
      by simp
    from Cons.IH [OF this] show ?thesis by (simp add: kv)
  qed
qed

text \<open>
  Claim C1. For every attachment index, every recipient table and every column mapping
  (each possibly absent), the reconciliation result satisfies
  \<open>matched + unmatched = files\<close>, where \<open>files\<close> is the total number of entries of the
  index, and the unmatched count, computed as \<open>files - matched\<close>, equals the number of
  file names placed in the unmatched-files list.
\<close>

theorem computed_conservation:
  "matched (computed norm c m val) + unmatched (computed norm c m val)
     = files (computed norm c m val)
   \<and> unmatched (computed norm c m val) = int (length (unmatchedFiles (computed norm c m val)))
   \<and> files (computed norm c m val) = (\<Sum>arr\<leftarrow>map snd val. int (length arr))"
proof -
  obtain mt um prs where loop:
    "computedLoop (\<lambda>k. k \<in> set (rowsNameSet norm c m)) (originalNameOf norm c m) val (0, [], [])
       = (mt, um, prs)"
    by (metis prod_cases3)
  from computedLoop_counts [OF loop]
  have "mt + int (length um) = (\<Sum>arr\<leftarrow>map snd val. int (length arr))" by simp
  then show ?thesis
    by (simp add: computed_def loop fold_total Let_def)
qed

section \<open>The batch policy trigger\<close>

lemma lower_includes_pdf:
  "includesStr (toLowerCase t) ''pdf'' \<longleftrightarrow> (\<exists>u a b c v. t = u @ [a, b, c] @ v \<and> pdfLetters a b c)"
proof
  assume "includesStr (toLowerCase t) ''pdf''"
  then obtain u v where "map toLowerChar t = u @ ''pdf'' @ v"
    by (auto simp: includesStr_iff toLowerCase_def)
  then obtain u' w where t: "t = u' @ w" and w: "map toLowerChar w = ''pdf'' @ v"
    by (auto simp: map_eq_append_conv)
  from w obtain a b c v' where "w = a # b # c # v'"
    "toLowerChar a = CHR ''p''" "toLowerChar b = CHR ''d''" "toLowerChar c = CHR ''f''"
    by (auto simp: map_eq_Cons_conv)
  with t have "t = u' @ [a, b, c] @ v' \<and> pdfLetters a b c"
    by (simp add: pdfLetters_def toLowerChar_p toLowerChar_d toLowerChar_f)
  then show "\<exists>u a b c v. t = u @ [a, b, c] @ v \<and> pdfLetters a b c" by blast
next
  assume "\<exists>u a b c v. t = u @ [a, b, c] @ v \<and> pdfLetters a b c"
  then obtain u a b c v where t: "t = u @ [a, b, c] @ v" and l: "pdfLetters a b c" by blast
  from l have "map toLowerChar [a, b, c] = ''pdf''"
    by (simp add: pdfLetters_def toLowerChar_p toLowerChar_d toLowerChar_f)
  with t have "toLowerCase t = map toLowerChar u @ ''pdf'' @ map toLowerChar v"
    by (simp add: toLowerCase_def)
  then show "includesStr (toLowerCase t) ''pdf''"
    unfolding includesStr_iff by blast
qed

lemma lower_ends_dot_pdf:
  "endsWith (toLowerCase fn) ''.pdf'' \<longleftrightarrow> spec_namedPdf fn"
proof
  assume "endsWith (toLowerCase fn) ''.pdf''"
  then obtain u where "map toLowerChar fn = u @ ''.pdf''"
    by (auto simp: endsWith_iff toLowerCase_def)
  then obtain u' w where t: "fn = u' @ w" and w: "map toLowerChar w = ''.pdf''"
    by (auto simp: map_eq_append_conv)
  from w obtain z a b c where "w = [z, a, b, c]" "toLowerChar z = CHR ''.''"
    "toLowerChar a = CHR ''p''" "toLowerChar b = CHR ''d''" "toLowerChar c = CHR ''f''"
    by (auto simp: map_eq_Cons_conv)
  with t have "fn = u' @ [CHR ''.'', a, b, c] \<and> pdfLetters a b c"
    by (simp add: pdfLetters_def toLowerChar_p toLowerChar_d toLowerChar_f toLowerChar_dot)
  then show "spec_namedPdf fn" unfolding spec_namedPdf_def by blast
next
  assume "spec_namedPdf fn"
  then obtain u a b c where t: "fn = u @ [CHR ''.'', a, b, c]" and l: "pdfLetters a b c"
    unfolding spec_namedPdf_def by blast
  from l have "map toLowerChar [CHR ''.'', a, b, c] = ''.pdf''"
    by (simp add: pdfLetters_def toLowerChar_p toLowerChar_d toLowerChar_f toLowerChar_dot)
  with t have "toLowerCase fn = map toLowerChar u @ ''.pdf''"
    by (simp add: toLowerCase_def)
  then show "endsWith (toLowerCase fn) ''.pdf''"
    unfolding endsWith_iff by blast
qed

lemma mime_declares_pdf:
  "includesStr (toLowerCase (orElse t [])) ''pdf'' \<longleftrightarrow> spec_declaresPdf t"
proof (cases t)
  case None
  then show ?thesis
    by (simp add: orElse_def toLowerCase_def spec_declaresPdf_def)
next
  case (Some x)
  have "orElse (Some x) [] = x" by (simp add: orElse_def)
  then show ?thesis
    using lower_includes_pdf [of x] by (simp add: Some spec_declaresPdf_def)
qed

lemma largePdfEntry_iff:
  "largePdfEntry e \<longleftrightarrow>
     (spec_declaresPdf (contentType e) \<or> spec_namedPdf (filename e)) \<and> spec_sizeInRange (sizeBytes e)"
proof -
  have fname: "orElse (Some (toLowerCase (filename e))) [] = toLowerCase (filename e)"
    by (simp add: orElse_def)
  have size: "(case sizeBytes e of Some n \<Rightarrow> n | None \<Rightarrow> 0) \<ge> 1024 * 1024
        \<and> (case sizeBytes e of Some n \<Rightarrow> n | None \<Rightarrow> 0) \<le> 2 * 1024 * 1024
        \<longleftrightarrow> spec_sizeInRange (sizeBytes e)"
    by (cases "sizeBytes e") (simp_all add: spec_sizeInRange_def)
  show ?thesis
    unfolding largePdfEntry_def Let_def fname
    using size mime_declares_pdf [of "contentType e"] lower_ends_dot_pdf [of "filename e"]
    by blast
qed

text \<open>
  Claim C2. For every attachment index, the single-recipient-per-send flag is set if and
  only if some entry of some bucket has a declared content type containing \<open>pdf\<close> in
  any mix of cases, or a file name ending in \<open>.pdf\<close> in any mix of cases, and has a
  declared size between 1,048,576 and 2,097,152 bytes inclusive.
\<close>

theorem largePdfDetected_iff:
  "largePdfDetected val \<longleftrightarrow>
     (\<exists>k arr e. (k, arr) \<in> set val \<and> e \<in> set arr
        \<and> (spec_declaresPdf (contentType e) \<or> spec_namedPdf (filename e))
        \<and> spec_sizeInRange (sizeBytes e))"
proof -
  have "largePdfDetected val \<longleftrightarrow> (\<exists>k arr e. (k, arr) \<in> set val \<and> e \<in> set arr \<and> largePdfEntry e)"
    by (force simp: largePdfDetected_def list_ex_iff)
  then show ?thesis by (simp add: largePdfEntry_iff)
qed

section \<open>Entries without a declared size\<close>

lemma largePdfEntry_no_size: "sizeBytes e = None \<Longrightarrow> \<not> largePdfEntry e"
  by (simp add: largePdfEntry_def Let_def)

lemma largePdfEntry_size_zero: "\<not> largePdfEntry (e\<lparr>sizeBytes := Some 0\<rparr>)"
  by (simp add: largePdfEntry_def Let_def)

text \<open>
  Claim C9. In the batch policy check an entry without a \<open>sizeBytes\<close> field is treated
  as having size 0: it never satisfies the check, whatever its type, name and content,
  and its presence in a bucket never changes the flag of the index.
\<close>

theorem absent_size_never_triggers:
  "sizeBytes e = None \<Longrightarrow>
     largePdfEntry e = largePdfEntry (e\<lparr>sizeBytes := Some 0\<rparr>)
     \<and> \<not> largePdfEntry e
     \<and> largePdfDetected (pre @ (k, as @ e # bs) # post)
         = largePdfDetected (pre @ (k, as @ bs) # post)"
  by (simp add: largePdfEntry_no_size largePdfEntry_size_zero largePdfDetected_def)

theorem absent_size_never_triggers_witness:
  "sizeBytes \<lparr>filename = ''big.pdf'', contentBase64 = ''AAAA'',
       contentType = Some ''application/pdf'', sizeBytes = None\<rparr> = None
   \<and> \<not> largePdfEntry \<lparr>filename = ''big.pdf'', contentBase64 = ''AAAA'',
       contentType = Some ''application/pdf'', sizeBytes = None\<rparr>
   \<and> \<not> largePdfDetected [(''big'', [\<lparr>filename = ''big.pdf'', contentBase64 = ''AAAA'',
       contentType = Some ''application/pdf'', sizeBytes = None\<rparr>])]
   \<and> largePdfDetected [(''big'', [\<lparr>filename = ''big.pdf'', contentBase64 = ''AAAA'',
       contentType = Some ''application/pdf'', sizeBytes = Some 1500000\<rparr>])]"
proof -
  let ?e = "\<lparr>filename = ''big.pdf'', contentBase64 = ''AAAA'',
       contentType = Some ''application/pdf'', sizeBytes = None\<rparr>"
  have h: "sizeBytes ?e = None" by simp
  have empty: "\<not> largePdfDetected [(''big'', [])]" by (simp add: largePdfDetected_def)
  have on: "largePdfDetected [(''big'', [\<lparr>filename = ''big.pdf'', contentBase64 = ''AAAA'',
       contentType = Some ''application/pdf'', sizeBytes = Some 1500000\<rparr>])]"
    by (simp add: largePdfDetected_def largePdfEntry_def Let_def orElse_def toLowerCase_def
        toLowerChar_def endsWith_def)
  have t: "\<not> largePdfEntry ?e
      \<and> largePdfDetected [(''big'', [?e])] = largePdfDetected [(''big'', [])]"
    using absent_size_never_triggers [OF h, of "[]" "''big''" "[]" "[]" "[]", THEN conjunct2]
    by simp
  from t h empty on show ?thesis by blast
qed

section \<open>Inference of the recipient and subject columns\<close>

lemma find_first_match:
  "(\<forall>x\<in>set pre. \<not> P x) \<Longrightarrow> P h \<Longrightarrow> find P (pre @ h # post) = Some h"
  by (induction pre) auto

lemma find_no_match: "(\<forall>x\<in>set hs. \<not> P x) \<Longrightarrow> find P hs = None"
  by (simp add: find_None_iff)

lemma recipientPattern_spec: "recipientPattern h \<longleftrightarrow> spec_isRecipientHeader h"
  by (simp add: recipientPattern_def spec_isRecipientHeader_def equalsIgnoringCase_def
      toLowerCase_def toLowerChar_def)

lemma subjectPattern_spec: "subjectPattern h \<longleftrightarrow> spec_isSubjectHeader h"
  by (simp add: subjectPattern_def spec_isSubjectHeader_def equalsIgnoringCase_def
      toLowerCase_def toLowerChar_def)

lemma recipientPattern_nonempty: "recipientPattern h \<Longrightarrow> h \<noteq> []"
  by (auto simp: recipientPattern_def toLowerCase_def)

lemma subjectPattern_nonempty: "subjectPattern h \<Longrightarrow> h \<noteq> []"
  by (auto simp: subjectPattern_def toLowerCase_def)

lemma guessRecipient_match:
  "(\<forall>x\<in>set pre. \<not> recipientPattern x) \<Longrightarrow> recipientPattern h \<Longrightarrow>
   guessRecipient (pre @ h # post) = h"
  by (simp add: guessRecipient_def find_first_match orElse_def recipientPattern_nonempty)

lemma guessRecipient_fallback:
  "hs \<noteq> [] \<Longrightarrow> (\<forall>x\<in>set hs. \<not> recipientPattern x) \<Longrightarrow> guessRecipient hs = hd hs"
  by (cases hs) (simp_all add: guessRecipient_def find_no_match orElse_def firstOf_def)

lemma guessSubject_match:
  "(\<forall>x\<in>set pre. \<not> subjectPattern x) \<Longrightarrow> subjectPattern h \<Longrightarrow>
   guessSubject (pre @ h # post) = Some h"
  by (simp add: guessSubject_def find_first_match orNull_def subjectPattern_nonempty)

lemma guessSubject_none:
  "(\<forall>x\<in>set hs. \<not> subjectPattern x) \<Longrightarrow> guessSubject hs = None"
  by (simp add: guessSubject_def find_no_match orNull_def)

text \<open>
  Claim C8. For every non-empty header list, the inferred recipient column is the first
  header that equals, as a whole string and ignoring case, one of \<open>email\<close>, \<open>e-mail\<close>,
  \<open>recipient\<close>, \<open>to\<close>, \<open>address\<close>, and the first header of the list when no header
  does; the inferred subject column is the first header that equals one of \<open>subject\<close>,
  \<open>title\<close>, \<open>headline\<close>, \<open>topic\<close>, and is absent, not the first header, when no
  header does.
\<close>

theorem guess_columns:
  "hs \<noteq> [] \<Longrightarrow>
     (hs = pre @ h # post \<and> (\<forall>x\<in>set pre. \<not> spec_isRecipientHeader x) \<and> spec_isRecipientHeader h
        \<longrightarrow> guessRecipient hs = h)
   \<and> ((\<forall>x\<in>set hs. \<not> spec_isRecipientHeader x) \<longrightarrow> guessRecipient hs = hd hs)
   \<and> (hs = pre' @ h' # post' \<and> (\<forall>x\<in>set pre'. \<not> spec_isSubjectHeader x) \<and> spec_isSubjectHeader h'
        \<longrightarrow> guessSubject hs = Some h')
   \<and> ((\<forall>x\<in>set hs. \<not> spec_isSubjectHeader x) \<longrightarrow> guessSubject hs = None)"
  using guessRecipient_match [of pre h post] guessRecipient_fallback [of hs]
    guessSubject_match [of pre' h' post'] guessSubject_none [of hs]
  by (simp add: recipientPattern_spec subjectPattern_spec)

theorem guess_columns_witness:
  "[''Name'', ''E-Mail'', ''Topic''] \<noteq> []
   \<and> \<not> spec_isRecipientHeader ''Name'' \<and> spec_isRecipientHeader ''E-Mail''
   \<and> guessRecipient [''Name'', ''E-Mail'', ''Topic''] = ''E-Mail''
   \<and> \<not> spec_isSubjectHeader ''Name'' \<and> \<not> spec_isSubjectHeader ''E-Mail''
   \<and> spec_isSubjectHeader ''Topic''
   \<and> guessSubject [''Name'', ''E-Mail'', ''Topic''] = Some ''Topic''
   \<and> [''First'', ''Last''] \<noteq> []
   \<and> \<not> spec_isRecipientHeader ''First'' \<and> \<not> spec_isRecipientHeader ''Last''
   \<and> guessRecipient [''First'', ''Last''] = ''First''
   \<and> \<not> spec_isSubjectHeader ''First'' \<and> \<not> spec_isSubjectHeader ''Last''
   \<and> guessSubject [''First'', ''Last''] = None"
proof -
  have r: "\<not> spec_isRecipientHeader ''Name''" "spec_isRecipientHeader ''E-Mail''"
    "\<not> spec_isRecipientHeader ''First''" "\<not> spec_isRecipientHeader ''Last''"
    by (simp_all add: spec_isRecipientHeader_def equalsIgnoringCase_def toLowerCase_def
        toLowerChar_def)
  have t: "\<not> spec_isSubjectHeader ''Name''" "\<not> spec_isSubjectHeader ''E-Mail''"
    "spec_isSubjectHeader ''Topic''"
    "\<not> spec_isSubjectHeader ''First''" "\<not> spec_isSubjectHeader ''Last''"
    by (simp_all add: spec_isSubjectHeader_def equalsIgnoringCase_def toLowerCase_def
        toLowerChar_def)
  have a: "guessRecipient [''Name'', ''E-Mail'', ''Topic''] = ''E-Mail''
      \<and> guessSubject [''Name'', ''E-Mail'', ''Topic''] = Some ''Topic''"
    using guess_columns [of "[''Name'', ''E-Mail'', ''Topic'']" "[''Name'']" "''E-Mail''"
        "[''Topic'']" "[''Name'', ''E-Mail'']" "''Topic''" "[]"] r t
    by simp
  have b: "guessRecipient [''First'', ''Last''] = ''First''
      \<and> guessSubject [''First'', ''Last''] = None"
    using guess_columns [of "[''First'', ''Last'']" "[]" "''First''" "[]" "[]" "''First''" "[]"] r t
    by simp
  from a b r t show ?thesis by simp
qed

section \<open>Loading a table without headers\<close>

text \<open>
  Claim C5. For every table load whose parsed header list is empty (or missing), the load
  ends with the no-headers error, the parent is not notified, and the prior table
  (headers, rows, row count) and the prior mapping are unchanged.
\<close>

theorem handleFile_no_headers:
  "flds = None \<or> flds = Some [] \<Longrightarrow>
     csv (fst (handleFile s fname (Complete data flds))) = csv s
   \<and> mapping (fst (handleFile s fname (Complete data flds))) = mapping s
   \<and> manualRow (fst (handleFile s fname (Complete data flds))) = manualRow s
   \<and> error (fst (handleFile s fname (Complete data flds)))
       = Some ''No headers found. Ensure the first row contains column names.''
   \<and> snd (handleFile s fname (Complete data flds)) = None"
  by (auto simp: handleFile_def Let_def)

theorem handleFile_no_headers_witness:
  "csv (fst (handleFile (fst (addManualRow (editCell (initializeManualEntry (initialState None))
        ''email'' ''jane@x.com''))) ''empty.csv'' (Complete [] (Some []))))
     = Some \<lparr>headers = [''email'', ''name''],
             rows = [[''email'' \<mapsto> ''jane@x.com'', ''name'' \<mapsto> []]], rowCount = 1\<rparr>
   \<and> mapping (fst (handleFile (fst (addManualRow (editCell (initializeManualEntry (initialState None))
        ''email'' ''jane@x.com''))) ''empty.csv'' (Complete [] (Some []))))
     = Some \<lparr>recipient = Some ''email'', name = Some ''name'', subject = None\<rparr>
   \<and> snd (handleFile (fst (addManualRow (editCell (initializeManualEntry (initialState None))
        ''email'' ''jane@x.com''))) ''empty.csv'' (Complete [] (Some []))) = None"
proof -
  let ?s = "fst (addManualRow (editCell (initializeManualEntry (initialState None))
        ''email'' ''jane@x.com''))"
  have c: "csv ?s = Some \<lparr>headers = [''email'', ''name''],
             rows = [[''email'' \<mapsto> ''jane@x.com'', ''name'' \<mapsto> []]], rowCount = 1\<rparr>"
    by (simp add: addManualRow_def editCell_def initializeManualEntry_def initialState_def
        recipientKey_def defaultMapping_def orElse_def truthy_def trim_def whiteSpaceCodes_def
        currentHeaders_def DEFAULT_HEADERS_def Let_def fun_upd_twist)
  have m: "mapping ?s = Some \<lparr>recipient = Some ''email'', name = Some ''name'', subject = None\<rparr>"
    by (simp add: addManualRow_def editCell_def initializeManualEntry_def initialState_def
        recipientKey_def defaultMapping_def orElse_def truthy_def trim_def whiteSpaceCodes_def
        currentHeaders_def DEFAULT_HEADERS_def Let_def)
  have h: "Some ([]::string list) = None \<or> Some ([]::string list) = Some []" by simp
  from handleFile_no_headers [OF h, of ?s "''empty.csv''" "[]"] c m
  show ?thesis by simp
qed

section \<open>Appending a manual row\<close>

lemma recipientKey_mapped:
  "mapping s = Some m \<Longrightarrow> recipient m = Some col \<Longrightarrow> col \<noteq> [] \<Longrightarrow> recipientKey s = col"
  by (simp add: recipientKey_def orElse_def)

lemma addManualRow_reject:
  "\<not> truthy (map_option trim (manualRow s (recipientKey s))) \<Longrightarrow>
   addManualRow s = (s\<lparr>error := Some ''Email/recipient field is required.''\<rparr>, None)"
  by (simp add: addManualRow_def Let_def)

lemma addManualRow_accept:
  "truthy (map_option trim (manualRow s (recipientKey s))) \<Longrightarrow>
   addManualRow s =
     (s\<lparr>csv := Some \<lparr>headers = currentHeaders s,
                      rows = (case csv s of Some c \<Rightarrow> rows c | None \<Rightarrow> []) @ [manualRow s],
                      rowCount = Suc (length (case csv s of Some c \<Rightarrow> rows c | None \<Rightarrow> []))\<rparr>,
        manualRow := blankRow (currentHeaders s), error := None\<rparr>,
      Some (\<lparr>headers = currentHeaders s,
              rows = (case csv s of Some c \<Rightarrow> rows c | None \<Rightarrow> []) @ [manualRow s],
              rowCount = Suc (length (case csv s of Some c \<Rightarrow> rows c | None \<Rightarrow> []))\<rparr>,
            (case mapping s of Some m \<Rightarrow> m | None \<Rightarrow> defaultMapping)))"
  by (simp add: addManualRow_def Let_def)

lemma truthy_trim:
  "truthy (map_option trim cell) \<longleftrightarrow> (\<exists>v. cell = Some v \<and> trim v \<noteq> [])"
  by (cases cell) (simp_all add: truthy_def)

lemma dom_blankRow_aux: "dom (fold (\<lambda>h r. r(h \<mapsto> [])) hs r0) = dom r0 \<union> set hs"
  by (induction hs arbitrary: r0) auto

lemma dom_blankRow: "dom (blankRow hs) = set hs"
  by (simp add: blankRow_def dom_blankRow_aux)

lemma editCells_csv: "csv (fold (\<lambda>e st. editCell st (fst e) (snd e)) es st) = csv st"
  by (induction es arbitrary: st) (simp_all add: editCell_def)

lemma editCells_dom:
  "dom (manualRow st) \<subseteq> dom (manualRow (fold (\<lambda>e st. editCell st (fst e) (snd e)) es st))"
proof (induction es arbitrary: st)
  case Nil
  then show ?case by simp
next
  case (Cons e es)
  have "dom (manualRow st) \<subseteq> dom (manualRow (editCell st (fst e) (snd e)))"
    by (auto simp: editCell_def)
  also have "\<dots> \<subseteq> dom (manualRow (fold (\<lambda>e st. editCell st (fst e) (snd e)) es
      (editCell st (fst e) (snd e))))"
    by (rule Cons.IH)
  finally show ?case by simp
qed

lemma initializeManualEntry_covers:
  "set (currentHeaders (initializeManualEntry s)) \<subseteq> dom (manualRow (initializeManualEntry s))"
  by (cases "csv s")
    (simp_all add: initializeManualEntry_def currentHeaders_def DEFAULT_HEADERS_def dom_blankRow)

lemma manual_entry_covers:
  "set (currentHeaders (fold (\<lambda>e st. editCell st (fst e) (snd e)) es (initializeManualEntry s0)))
     \<subseteq> dom (manualRow (fold (\<lambda>e st. editCell st (fst e) (snd e)) es (initializeManualEntry s0)))"
  using initializeManualEntry_covers [of s0] editCells_dom [of "initializeManualEntry s0" es]
  by (simp add: currentHeaders_def editCells_csv)

text \<open>
  What a manual append does. The recipient column it consults is the mapped recipient
  column (\<open>email\<close> when none is mapped). When the manual row has no value under it, or a
  value that is empty after trimming, the append ends with the recipient-required error,
  the parent is not notified, and the table and the mapping are unchanged. Otherwise
  exactly one record, the manual row as it stands, is appended after the existing rows,
  and the header list is the one of the table (the default headers when there was no
  table).
\<close>

lemma addManualRow_outcome:
  "(mapping s = Some m \<and> recipient m = Some col \<and> col \<noteq> [] \<longrightarrow> recipientKey s = col)
   \<and> (manualRow s (recipientKey s) = None
        \<or> (\<exists>v. manualRow s (recipientKey s) = Some v \<and> trim v = []) \<longrightarrow>
       csv (fst (addManualRow s)) = csv s
       \<and> mapping (fst (addManualRow s)) = mapping s
       \<and> error (fst (addManualRow s)) = Some ''Email/recipient field is required.''
       \<and> snd (addManualRow s) = None)
   \<and> (manualRow s (recipientKey s) = Some v \<and> trim v \<noteq> [] \<and> csv s = Some t \<longrightarrow>
       csv (fst (addManualRow s))
         = Some \<lparr>headers = headers t, rows = rows t @ [manualRow s],
                 rowCount = Suc (length (rows t))\<rparr>
       \<and> error (fst (addManualRow s)) = None)
   \<and> (manualRow s (recipientKey s) = Some v \<and> trim v \<noteq> [] \<and> csv s = None \<longrightarrow>
       csv (fst (addManualRow s))
         = Some \<lparr>headers = DEFAULT_HEADERS, rows = [manualRow s], rowCount = 1\<rparr>
       \<and> error (fst (addManualRow s)) = None)"
proof -
  have key: "recipientKey s = col" if "mapping s = Some m" "recipient m = Some col" "col \<noteq> []"
    using that by (rule recipientKey_mapped)
  have rej: "csv (fst (addManualRow s)) = csv s
       \<and> mapping (fst (addManualRow s)) = mapping s
       \<and> error (fst (addManualRow s)) = Some ''Email/recipient field is required.''
       \<and> snd (addManualRow s) = None"
    if "manualRow s (recipientKey s) = None
        \<or> (\<exists>v. manualRow s (recipientKey s) = Some v \<and> trim v = [])"
  proof -
    from that have "\<not> truthy (map_option trim (manualRow s (recipientKey s)))"
      by (auto simp: truthy_def)
    then show ?thesis by (simp add: addManualRow_reject)
  qed
  have ok: "truthy (map_option trim (manualRow s (recipientKey s)))"
    if "manualRow s (recipientKey s) = Some v" "trim v \<noteq> []"
    using that by (simp add: truthy_def)
  have acc1: "csv (fst (addManualRow s))
         = Some \<lparr>headers = headers t, rows = rows t @ [manualRow s],
                 rowCount = Suc (length (rows t))\<rparr>
       \<and> error (fst (addManualRow s)) = None"
    if "manualRow s (recipientKey s) = Some v" "trim v \<noteq> []" "csv s = Some t"
    using that ok by (simp add: addManualRow_accept currentHeaders_def)
  have acc2: "csv (fst (addManualRow s))
         = Some \<lparr>headers = DEFAULT_HEADERS, rows = [manualRow s], rowCount = 1\<rparr>
       \<and> error (fst (addManualRow s)) = None"
    if "manualRow s (recipientKey s) = Some v" "trim v \<noteq> []" "csv s = None"
    using that ok by (simp add: addManualRow_accept currentHeaders_def)
  from key rej acc1 acc2 show ?thesis by blast
qed

text \<open>
  Opening manual entry gives the manual row a cell for every header, and so does the
  end of a successful append; cell edits keep them. A load replaces the headers and
  leaves the manual row as it is.
\<close>

lemma addManualRow_resets_row:
  "truthy (map_option trim (manualRow s (recipientKey s))) \<Longrightarrow>
   dom (manualRow (fst (addManualRow s))) = set (currentHeaders (fst (addManualRow s)))"
  by (simp add: addManualRow_accept dom_blankRow currentHeaders_def)

lemma handleFile_keeps_row: "manualRow (fst (handleFile s fname outcome)) = manualRow s"
proof (cases outcome)
  case (Complete data flds)
  then show ?thesis by (simp add: handleFile_def Let_def)
next
  case (ParseError msg)
  then show ?thesis by (simp add: handleFile_def Let_def)
qed

text \<open>
  Claim C6. A manual append whose recipient value is empty after trimming, or absent, is
  refused and leaves rows and row count unchanged; one whose recipient value is
  non-empty appends exactly one record preserving the full header set. The handler does
  the first and appends one record, but the record need not have the full header set:
  with manual entry open and \<open>a@b.c\<close> typed into the \<open>email\<close> cell, loading a table with
  the headers \<open>email\<close>, \<open>name\<close>, \<open>phone\<close> and then adding the row appends a record without
  a \<open>phone\<close> cell to a table that has a \<open>phone\<close> column.
\<close>

theorem addManualRow_after_load_lacks_header:
  "csv (fst (addManualRow (fst (handleFile
         (editCell (initializeManualEntry (initialState None)) ''email'' ''a@b.c'')
         ''people.csv'' (Complete [] (Some [''email'', ''name'', ''phone'']))))))
     = Some \<lparr>headers = [''email'', ''name'', ''phone''],
             rows = [[''email'' \<mapsto> ''a@b.c'', ''name'' \<mapsto> []]], rowCount = 1\<rparr>
   \<and> error (fst (addManualRow (fst (handleFile
         (editCell (initializeManualEntry (initialState None)) ''email'' ''a@b.c'')
         ''people.csv'' (Complete [] (Some [''email'', ''name'', ''phone''])))))) = None
   \<and> [''email'' \<mapsto> ''a@b.c'', ''name'' \<mapsto> ([]::string)] ''phone'' = None
   \<and> ''phone'' \<in> set [''email'', ''name'', ''phone'']"
proof -
  let ?e = "editCell (initializeManualEntry (initialState None)) ''email'' ''a@b.c''"
  let ?l = "fst (handleFile ?e ''people.csv'' (Complete [] (Some [''email'', ''name'', ''phone''])))"
  have row: "manualRow ?e = [''email'' \<mapsto> ''a@b.c'', ''name'' \<mapsto> []]"
    by (auto simp: editCell_def initializeManualEntry_def initialState_def)
  have mp: "mapping ?e = Some defaultMapping"
    by (simp add: editCell_def initializeManualEntry_def initialState_def)
  have l_csv: "csv ?l = Some \<lparr>headers = [''email'', ''name'', ''phone''], rows = [], rowCount = 0\<rparr>"
    by (simp add: handleFile_def Let_def)
  have l_map: "recipient (the (mapping ?l)) = Some ''email''"
    by (simp add: handleFile_def Let_def nextMappingOf_def mp defaultMapping_def orElse_def)
  have l_some: "mapping ?l \<noteq> None"
    by (simp add: handleFile_def Let_def)
  have l_row: "manualRow ?l = [''email'' \<mapsto> ''a@b.c'', ''name'' \<mapsto> []]"
    by (simp add: handleFile_keeps_row row)
  have key: "recipientKey ?l = ''email''"
    using l_map l_some by (auto simp: recipientKey_def orElse_def)
  have tr: "trim ''a@b.c'' \<noteq> []"
    by (simp add: trim_def whiteSpaceCodes_def)
  have ok: "truthy (map_option trim (manualRow ?l (recipientKey ?l)))"
    using tr by (simp add: key l_row truthy_def)
  have "csv (fst (addManualRow ?l))
      = Some \<lparr>headers = [''email'', ''name'', ''phone''],
              rows = [[''email'' \<mapsto> ''a@b.c'', ''name'' \<mapsto> []]], rowCount = 1\<rparr>
    \<and> error (fst (addManualRow ?l)) = None"
    by (simp add: addManualRow_accept [OF ok] currentHeaders_def l_csv l_row)
  then show ?thesis by simp
qed

section \<open>The row count of the table\<close>

lemma handleFile_table:
  "csv (fst (handleFile s fname outcome)) = csv s
   \<or> (\<exists>data hs. csv (fst (handleFile s fname outcome))
         = Some \<lparr>headers = hs, rows = data, rowCount = length data\<rparr>)"
proof (cases outcome)
  case (Complete data flds)
  then show ?thesis by (simp add: handleFile_def Let_def)
next
  case (ParseError msg)
  then show ?thesis by (simp add: handleFile_def Let_def)
qed

lemma initializeManualEntry_table:
  "csv (initializeManualEntry s) = csv s
   \<or> (\<exists>rs hs. csv (initializeManualEntry s)
         = Some \<lparr>headers = hs, rows = rs, rowCount = length rs\<rparr>)"
  by (cases "csv s") (simp_all add: initializeManualEntry_def)

lemma addManualRow_table:
  "csv (fst (addManualRow s)) = csv s
   \<or> (\<exists>rs hs. csv (fst (addManualRow s)) = Some \<lparr>headers = hs, rows = rs, rowCount = length rs\<rparr>)"
  by (auto simp: addManualRow_def Let_def)

lemma deleteRow_table:
  "csv (fst (deleteRow s i)) = csv s
   \<or> (\<exists>rs hs. csv (fst (deleteRow s i)) = Some \<lparr>headers = hs, rows = rs, rowCount = length rs\<rparr>)"
  by (cases "csv s") (auto simp: deleteRow_def Let_def)

lemma deleteRow_rows:
  "map snd (filter (\<lambda>p. fst p \<noteq> i) (enumerate n rs)) = take (i - n) rs @ drop (Suc (i - n)) rs" if "n \<le> i"
  using that
proof (induction rs arbitrary: n)
  case Nil
  then show ?case by simp
next
  case (Cons r rs)
  show ?case
  proof (cases "n = i")
    case True
    have "filter (\<lambda>p. fst p \<noteq> i) (enumerate (Suc i) rs) = enumerate (Suc i) rs"
      by (rule filter_True) (auto simp: in_set_enumerate_eq)
    with True show ?thesis by simp
  next
    case False
    with Cons.prems have "n < i" by simp
    then obtain d where d: "i = Suc (n + d)" by (auto dest: less_imp_Suc_add)
    then have "Suc n \<le> i" by simp
    from Cons.IH [OF this] False d show ?thesis by simp
  qed
qed


lemma tableInvariant_step:
  "tableInvariant s \<Longrightarrow>
   csv s' = csv s \<or> (\<exists>rs hs. csv s' = Some \<lparr>headers = hs, rows = rs, rowCount = length rs\<rparr>) \<Longrightarrow>
   tableInvariant s'"
  by (auto simp: tableInvariant_def)

text \<open>
  Claim C10. Every operation that builds or changes the table (loading a file, opening
  manual entry, appending a manual row, deleting a row) leaves a table whose row count
  is the number of its rows: whenever one of them changes the table, the new table
  satisfies \<open>rowCount = length rows\<close>, a deletion keeps exactly the rows at the other
  positions, and a state that satisfies the invariant satisfies it after each of them.
\<close>

theorem rowCount_matches_rows:
  "(csv (fst (handleFile s fname outcome)) \<noteq> csv s \<and> csv (fst (handleFile s fname outcome)) = Some c1
      \<longrightarrow> rowCount c1 = length (rows c1))
   \<and> (csv (initializeManualEntry s) \<noteq> csv s \<and> csv (initializeManualEntry s) = Some c2
      \<longrightarrow> rowCount c2 = length (rows c2))
   \<and> (csv (fst (addManualRow s)) \<noteq> csv s \<and> csv (fst (addManualRow s)) = Some c3
      \<longrightarrow> rowCount c3 = length (rows c3))
   \<and> (csv s = Some c \<and> csv (fst (deleteRow s i)) = Some c4
      \<longrightarrow> rowCount c4 = length (rows c4)
          \<and> rows c4 = take i (rows c) @ drop (Suc i) (rows c))
   \<and> (tableInvariant s \<longrightarrow>
        tableInvariant (fst (handleFile s fname outcome))
        \<and> tableInvariant (initializeManualEntry s)
        \<and> tableInvariant (fst (addManualRow s))
        \<and> tableInvariant (fst (deleteRow s i)))"
proof -
  have a: "rowCount c1 = length (rows c1)"
    if "csv (fst (handleFile s fname outcome)) \<noteq> csv s" "csv (fst (handleFile s fname outcome)) = Some c1"
    using that handleFile_table [of s fname outcome] by auto
  have b: "rowCount c2 = length (rows c2)"
    if "csv (initializeManualEntry s) \<noteq> csv s" "csv (initializeManualEntry s) = Some c2"
    using that initializeManualEntry_table [of s] by auto
  have c: "rowCount c3 = length (rows c3)"
    if "csv (fst (addManualRow s)) \<noteq> csv s" "csv (fst (addManualRow s)) = Some c3"
    using that addManualRow_table [of s] by auto
  have d: "rowCount c4 = length (rows c4) \<and> rows c4 = take i (rows c) @ drop (Suc i) (rows c)"
    if "csv s = Some c" "csv (fst (deleteRow s i)) = Some c4"
    using that deleteRow_rows [of 0 i "rows c"] by (auto simp: deleteRow_def Let_def)
  have e: "tableInvariant (fst (handleFile s fname outcome))
        \<and> tableInvariant (initializeManualEntry s)
        \<and> tableInvariant (fst (addManualRow s))
        \<and> tableInvariant (fst (deleteRow s i))" if "tableInvariant s"
    using tableInvariant_step [OF that handleFile_table [of s fname outcome]]
      tableInvariant_step [OF that initializeManualEntry_table [of s]]
      tableInvariant_step [OF that addManualRow_table [of s]]
      tableInvariant_step [OF that deleteRow_table [of s i]]
    by auto
  from a b c d e show ?thesis by blast
qed

theorem rowCount_matches_rows_witness:
  "csv (initializeManualEntry (initialState None)) \<noteq> csv (initialState None)
   \<and> csv (initializeManualEntry (initialState None))
       = Some \<lparr>headers = DEFAULT_HEADERS, rows = [], rowCount = 0\<rparr>
   \<and> rowCount \<lparr>headers = DEFAULT_HEADERS, rows = [], rowCount = 0\<rparr>
       = length (rows \<lparr>headers = DEFAULT_HEADERS, rows = [], rowCount = 0\<rparr>)
   \<and> tableInvariant (initialState None)
   \<and> tableInvariant (initializeManualEntry (initialState None))
   \<and> tableInvariant (fst (addManualRow (editCell (initializeManualEntry (initialState None))
         ''email'' ''a@b.c'')))
   \<and> tableInvariant (fst (deleteRow (fst (addManualRow (editCell
         (initializeManualEntry (initialState None)) ''email'' ''a@b.c''))) 0))
   \<and> tableInvariant (fst (handleFile (initialState None) ''r.csv''
         (Complete [Map.empty] (Some [''Email'']))))"
proof -
  let ?i = "initialState None"
  let ?m = "initializeManualEntry ?i"
  let ?e = "editCell ?m ''email'' ''a@b.c''"
  let ?a = "fst (addManualRow ?e)"
  have ne: "csv ?m \<noteq> csv ?i"
    and eq: "csv ?m = Some \<lparr>headers = DEFAULT_HEADERS, rows = [], rowCount = 0\<rparr>"
    by (simp_all add: initializeManualEntry_def initialState_def)
  have cnt: "rowCount \<lparr>headers = DEFAULT_HEADERS, rows = [], rowCount = 0\<rparr>
       = length (rows \<lparr>headers = DEFAULT_HEADERS, rows = [], rowCount = 0\<rparr>)"
    using rowCount_matches_rows [of ?i _ _ _
        "\<lparr>headers = DEFAULT_HEADERS, rows = [], rowCount = 0\<rparr>"] ne eq
    by blast
  have i: "tableInvariant ?i"
    by (simp add: tableInvariant_def initialState_def)
  have m: "tableInvariant ?m"
    and h: "tableInvariant (fst (handleFile ?i ''r.csv'' (Complete [Map.empty] (Some [''Email'']))))"
    using rowCount_matches_rows [of ?i "''r.csv''" "Complete [Map.empty] (Some [''Email''])"] i
    by blast+
  have e: "tableInvariant ?e"
    using m by (simp add: tableInvariant_def editCell_def)
  have a: "tableInvariant ?a"
    using rowCount_matches_rows [of ?e] e by blast
  have d: "tableInvariant (fst (deleteRow ?a 0))"
    using rowCount_matches_rows [of ?a _ _ _ _ _ _ 0] a by blast
  from ne eq cnt i m a d h show ?thesis by blast
qed

section \<open>The mapping after a load or a selection\<close>

lemma find_in_set: "find P xs = Some x \<Longrightarrow> x \<in> set xs"
  by (auto simp: find_Some_iff)

lemma guessRecipient_in_headers: "hs \<noteq> [] \<Longrightarrow> guessRecipient hs \<in> set hs"
proof (cases "find recipientPattern hs")
  case None
  assume "hs \<noteq> []"
  with None show ?thesis
    by (cases hs) (auto simp: guessRecipient_def orElse_def firstOf_def)
next
  case (Some h)
  assume "hs \<noteq> []"
  from Some have "h \<in> set hs" by (rule find_in_set)
  with Some \<open>hs \<noteq> []\<close> show ?thesis
    by (cases hs) (auto simp: guessRecipient_def orElse_def firstOf_def)
qed

lemma guessName_in_headers: "hs \<noteq> [] \<Longrightarrow> guessName hs \<in> set hs"
proof (cases "find namePattern hs")
  case None
  assume "hs \<noteq> []"
  with None show ?thesis
    by (cases hs) (auto simp: guessName_def orElse_def firstOf_def)
next
  case (Some h)
  assume "hs \<noteq> []"
  from Some have "h \<in> set hs" by (rule find_in_set)
  with Some \<open>hs \<noteq> []\<close> show ?thesis
    by (cases hs) (auto simp: guessName_def orElse_def firstOf_def)
qed

lemma handleFile_loaded:
  "hs \<noteq> [] \<Longrightarrow>
   handleFile s fname (Complete data (Some hs)) =
     (s\<lparr>error := None, fileName := fname,
        csv := Some \<lparr>headers = hs, rows = data, rowCount = length data\<rparr>,
        mapping := Some (nextMappingOf (mapping s) hs)\<rparr>,
      Some (\<lparr>headers = hs, rows = data, rowCount = length data\<rparr>, nextMappingOf (mapping s) hs))"
  by (simp add: handleFile_def Let_def)

lemma orElse_cases:
  "orElse a b = (if truthy a then the a else b)"
  by (cases a) (simp_all add: orElse_def truthy_def)

text \<open>
  Claim C4 says that a mapping field naming a column absent from the current header
  list is rejected, so that no such mapping reaches the reconciliation. The handlers
  make no such check. Opening manual entry sets the mapping to \<open>email\<close> and \<open>name\<close>;
  loading a table with the headers \<open>Contact\<close> and \<open>Person\<close> afterwards carries both
  choices over, reports no error and hands table and mapping to the parent.
\<close>

theorem mapping_unchecked_counterexample:
  "snd (handleFile (initializeManualEntry (initialState None)) ''list.csv''
          (Complete [] (Some [''Contact'', ''Person''])))
     = Some (\<lparr>headers = [''Contact'', ''Person''], rows = [], rowCount = 0\<rparr>,
             \<lparr>recipient = Some ''email'', name = Some ''name'', subject = None\<rparr>)
   \<and> error (fst (handleFile (initializeManualEntry (initialState None)) ''list.csv''
          (Complete [] (Some [''Contact'', ''Person''])))) = None
   \<and> ''email'' \<notin> set [''Contact'', ''Person'']
   \<and> ''name'' \<notin> set [''Contact'', ''Person'']"
  by (simp add: handleFile_def initializeManualEntry_def initialState_def
      nextMappingOf_def defaultMapping_def orElse_def Let_def
      guessSubject_def orNull_def subjectPattern_def toLowerCase_def toLowerChar_def)

text \<open>
  Claim C4, amended. A recipient or name column inferred on a table load with a
  non-empty header list (there being no prior non-empty choice for that field) is one of
  the current headers. A prior non-empty choice is carried over unchanged across the
  load, and a non-empty value given to \<open>onChangeSelect\<close> is stored as given, the other
  fields and the table staying as they are; neither is checked against the header list,
  and in each case the table and the resulting mapping are handed to the parent.
\<close>

theorem mapping_after_load:
  "(hs \<noteq> [] \<longrightarrow>
      snd (handleFile s fname (Complete data (Some hs)))
        = Some (\<lparr>headers = hs, rows = data, rowCount = length data\<rparr>,
                nextMappingOf (mapping s) hs)
      \<and> mapping (fst (handleFile s fname (Complete data (Some hs))))
        = Some (nextMappingOf (mapping s) hs))
   \<and> (hs \<noteq> [] \<and> \<not> truthy (Option.bind (mapping s) recipient) \<longrightarrow>
        recipient (nextMappingOf (mapping s) hs) = Some (guessRecipient hs)
        \<and> guessRecipient hs \<in> set hs)
   \<and> (hs \<noteq> [] \<and> \<not> truthy (Option.bind (mapping s) name) \<longrightarrow>
        name (nextMappingOf (mapping s) hs) = Some (guessName hs)
        \<and> guessName hs \<in> set hs)
   \<and> (truthy (Option.bind (mapping s) recipient) \<longrightarrow>
        recipient (nextMappingOf (mapping s) hs) = Option.bind (mapping s) recipient)
   \<and> (truthy (Option.bind (mapping s) name) \<longrightarrow>
        name (nextMappingOf (mapping s) hs) = Option.bind (mapping s) name)
   \<and> (csv s = Some t \<and> mapping s = Some m \<and> v \<noteq> [] \<longrightarrow>
        snd (onChangeSelect s KeyRecipient v) = Some (t, m\<lparr>recipient := Some v\<rparr>)
        \<and> snd (onChangeSelect s KeyName v) = Some (t, m\<lparr>name := Some v\<rparr>)
        \<and> csv (fst (onChangeSelect s KeyRecipient v)) = Some t
        \<and> csv (fst (onChangeSelect s KeyName v)) = Some t)"
proof -
  have load: "snd (handleFile s fname (Complete data (Some hs)))
        = Some (\<lparr>headers = hs, rows = data, rowCount = length data\<rparr>,
                nextMappingOf (mapping s) hs)
      \<and> mapping (fst (handleFile s fname (Complete data (Some hs))))
        = Some (nextMappingOf (mapping s) hs)" if "hs \<noteq> []"
    using that by (simp add: handleFile_loaded)
  have r1: "recipient (nextMappingOf (mapping s) hs) = Some (guessRecipient hs)
        \<and> guessRecipient hs \<in> set hs"
    if "hs \<noteq> []" "\<not> truthy (Option.bind (mapping s) recipient)"
    using that by (simp add: nextMappingOf_def orElse_cases guessRecipient_in_headers)
  have n1: "name (nextMappingOf (mapping s) hs) = Some (guessName hs)
        \<and> guessName hs \<in> set hs"
    if "hs \<noteq> []" "\<not> truthy (Option.bind (mapping s) name)"
    using that by (simp add: nextMappingOf_def orElse_cases guessName_in_headers)
  have r2: "recipient (nextMappingOf (mapping s) hs) = Option.bind (mapping s) recipient"
    if "truthy (Option.bind (mapping s) recipient)"
    using that by (cases "Option.bind (mapping s) recipient")
      (simp_all add: nextMappingOf_def orElse_cases truthy_def)
  have n2: "name (nextMappingOf (mapping s) hs) = Option.bind (mapping s) name"
    if "truthy (Option.bind (mapping s) name)"
    using that by (cases "Option.bind (mapping s) name")
      (simp_all add: nextMappingOf_def orElse_cases truthy_def)
  have sel: "snd (onChangeSelect s KeyRecipient v) = Some (t, m\<lparr>recipient := Some v\<rparr>)
        \<and> snd (onChangeSelect s KeyName v) = Some (t, m\<lparr>name := Some v\<rparr>)
        \<and> csv (fst (onChangeSelect s KeyRecipient v)) = Some t
        \<and> csv (fst (onChangeSelect s KeyName v)) = Some t"
    if "csv s = Some t" "mapping s = Some m" "v \<noteq> []"
    using that by (simp add: onChangeSelect_def orNull_def Let_def)
  from load r1 n1 r2 n2 sel show ?thesis by blast
qed

theorem mapping_after_load_witness:
  "[''Name'', ''E-Mail''] \<noteq> []
   \<and> \<not> truthy (Option.bind (mapping (initialState None)) recipient)
   \<and> \<not> truthy (Option.bind (mapping (initialState None)) name)
   \<and> mapping (fst (handleFile (initialState None) ''r.csv''
         (Complete [] (Some [''Name'', ''E-Mail'']))))
       = Some (nextMappingOf None [''Name'', ''E-Mail''])
   \<and> recipient (nextMappingOf None [''Name'', ''E-Mail''])
       = Some (guessRecipient [''Name'', ''E-Mail''])
   \<and> guessRecipient [''Name'', ''E-Mail''] \<in> set [''Name'', ''E-Mail'']
   \<and> name (nextMappingOf None [''Name'', ''E-Mail'']) = Some (guessName [''Name'', ''E-Mail''])
   \<and> guessName [''Name'', ''E-Mail''] \<in> set [''Name'', ''E-Mail'']
   \<and> truthy (Option.bind (mapping (initializeManualEntry (initialState None))) recipient)
   \<and> recipient (nextMappingOf (mapping (initializeManualEntry (initialState None))) [''Contact''])
       = Some ''email''
   \<and> truthy (Option.bind (mapping (initializeManualEntry (initialState None))) name)
   \<and> name (nextMappingOf (mapping (initializeManualEntry (initialState None))) [''Contact''])
       = Some ''name''
   \<and> snd (onChangeSelect (initializeManualEntry (initialState None)) KeyName ''email'')
       = Some (\<lparr>headers = DEFAULT_HEADERS, rows = [], rowCount = 0\<rparr>,
               \<lparr>recipient = Some ''email'', name = Some ''email'', subject = None\<rparr>)"
proof -
  let ?i = "initialState None"
  let ?m = "initializeManualEntry ?i"
  have i: "mapping ?i = None"
    by (simp add: initialState_def)
  have ni: "\<not> truthy (Option.bind (mapping ?i) recipient)" "\<not> truthy (Option.bind (mapping ?i) name)"
    by (simp_all add: i truthy_def)
  have m: "mapping ?m = Some defaultMapping"
    "csv ?m = Some \<lparr>headers = DEFAULT_HEADERS, rows = [], rowCount = 0\<rparr>"
    by (simp_all add: initializeManualEntry_def initialState_def)
  have tm: "truthy (Option.bind (mapping ?m) recipient)" "truthy (Option.bind (mapping ?m) name)"
    by (simp_all add: m truthy_def defaultMapping_def)
  have ne: "[''Name'', ''E-Mail''] \<noteq> []" by simp
  have a: "mapping (fst (handleFile ?i ''r.csv'' (Complete [] (Some [''Name'', ''E-Mail'']))))
       = Some (nextMappingOf None [''Name'', ''E-Mail''])
     \<and> recipient (nextMappingOf None [''Name'', ''E-Mail''])
       = Some (guessRecipient [''Name'', ''E-Mail''])
     \<and> guessRecipient [''Name'', ''E-Mail''] \<in> set [''Name'', ''E-Mail'']
     \<and> name (nextMappingOf None [''Name'', ''E-Mail'']) = Some (guessName [''Name'', ''E-Mail''])
     \<and> guessName [''Name'', ''E-Mail''] \<in> set [''Name'', ''E-Mail'']"
    using mapping_after_load [of "[''Name'', ''E-Mail'']" ?i "''r.csv''" "[]"] ne ni i
    by simp
  have b: "recipient (nextMappingOf (mapping ?m) [''Contact'']) = Some ''email''
     \<and> name (nextMappingOf (mapping ?m) [''Contact'']) = Some ''name''"
    using mapping_after_load [of "[''Contact'']" ?m] tm
    by (simp add: m defaultMapping_def)
  have c: "snd (onChangeSelect ?m KeyName ''email'')
       = Some (\<lparr>headers = DEFAULT_HEADERS, rows = [], rowCount = 0\<rparr>,
               \<lparr>recipient = Some ''email'', name = Some ''email'', subject = None\<rparr>)"
    using mapping_after_load [of _ ?m _ _
        "\<lparr>headers = DEFAULT_HEADERS, rows = [], rowCount = 0\<rparr>" defaultMapping "''email''"] m
    by (simp add: defaultMapping_def)
  from ne ni tm a b c show ?thesis by blast
qed

section \<open>Partial success of an upload\<close>

lemma failedLabel_eq:
  "failedLabel f = (if file_name f = [] then ''(unknown)'' else file_name f)"
  by (simp add: failedLabel_def orElse_def)

subsection \<open>The server action\<close>

lemma actionLoop_eq:
  "actionLoop norm tb fs items failed =
     (items @ concat (map (\<lambda>f. case tb f of
                               Some c \<Rightarrow> [(norm (fileBaseName (file_name f)), entryOf f c)]
                             | None \<Rightarrow> []) fs),
      failed @ map failedLabel (filter (\<lambda>f. tb f = None) fs))"
  by (induction fs arbitrary: items failed) (auto split: option.splits)

lemma actionLoop_commits:
  assumes "f \<in> set fs" and "tb f = Some c"
  shows "(norm (fileBaseName (file_name f)), entryOf f c)
           \<in> set (fst (actionLoop norm tb fs items failed))"
proof -
  let ?g = "\<lambda>f. case tb f of
                  Some c \<Rightarrow> [(norm (fileBaseName (file_name f)), entryOf f c)]
                | None \<Rightarrow> []"
  from assms have "(norm (fileBaseName (file_name f)), entryOf f c) \<in> set (?g f)" by simp
  with assms(1) have "(norm (fileBaseName (file_name f)), entryOf f c) \<in> set (concat (map ?g fs))"
    by auto
  then show ?thesis by (simp add: actionLoop_eq)
qed

text \<open>
  On the server every file whose decoding succeeds is among the returned items and the
  failed list holds exactly the files whose decoding fails, in upload order.
\<close>

lemma uploadAttachmentsAction_partial_success:
  assumes "f \<in> set fs" and "fs = concat (map asFile (filter isFileLike input))"
  shows "\<exists>items failed.
           uploadAttachmentsAction norm tb input = UploadOk items failed
           \<and> failed = map failedLabel (filter (\<lambda>g. tb g = None) fs)
           \<and> (tb f = None \<longrightarrow> failedLabel f \<in> set failed)
           \<and> (tb f = Some c \<longrightarrow>
                (norm (fileBaseName (file_name f)), entryOf f c) \<in> set items)"
proof -
  from assms(1) have ne: "fs \<noteq> []" by auto
  have lab: "tb f = None \<Longrightarrow> failedLabel f \<in> set (map failedLabel (filter (\<lambda>g. tb g = None) fs))"
    using assms(1) by auto
  obtain items failed where loop: "actionLoop norm tb fs [] [] = (items, failed)"
    by (cases "actionLoop norm tb fs [] []")
  from loop ne assms(2) have res: "uploadAttachmentsAction norm tb input = UploadOk items failed"
    by (simp add: uploadAttachmentsAction_def Let_def)
  from loop have failed: "failed = map failedLabel (filter (\<lambda>g. tb g = None) fs)"
    by (simp add: actionLoop_eq)
  have commit: "(norm (fileBaseName (file_name f)), entryOf f c) \<in> set items" if "tb f = Some c"
    using actionLoop_commits [of f fs tb c norm "[]" "[]", OF assms(1) that] loop by simp
  have "uploadAttachmentsAction norm tb input = UploadOk items failed
           \<and> failed = map failedLabel (filter (\<lambda>g. tb g = None) fs)
           \<and> (tb f = None \<longrightarrow> failedLabel f \<in> set failed)
           \<and> (tb f = Some c \<longrightarrow>
                (norm (fileBaseName (file_name f)), entryOf f c) \<in> set items)"
    using res failed lab commit by simp
  then show ?thesis by (intro exI)
qed

subsection \<open>Reading and writing the index\<close>

lemma lookup_replaceBucket:
  "lookupBucket idx k = Some old \<Longrightarrow>
   lookupBucket (replaceBucket k arr idx) k' = (if k' = k then Some arr else lookupBucket idx k')"
  by (induction idx) (auto split: if_splits)

lemma lookup_insertIndexKey:
  "lookupBucket idx k = None \<Longrightarrow>
   lookupBucket (insertIndexKey n k arr idx) k' = (if k' = k then Some arr else lookupBucket idx k')"
  by (induction idx) (auto split: if_splits option.splits)

lemma lookup_append_new:
  "lookupBucket idx k = None \<Longrightarrow>
   lookupBucket (idx @ [(k, arr)]) k' = (if k' = k then Some arr else lookupBucket idx k')"
  by (induction idx) (auto split: if_splits)

lemma lookup_assignBucket:
  "lookupBucket (assignBucket k arr idx) k' = (if k' = k then Some arr else lookupBucket idx k')"
proof (cases "lookupBucket idx k")
  case None
  then show ?thesis
    by (cases "arrayIndex k")
      (simp_all add: assignBucket_def lookup_insertIndexKey lookup_append_new)
next
  case (Some old)
  then show ?thesis
    by (simp add: assignBucket_def lookup_replaceBucket)
qed

text \<open>A write under a key that is not read from the prototype leaves every other key as it reads.\<close>

lemma inherited_after_assign:
  "readBucket idx k \<noteq> InheritedValue \<Longrightarrow>
   (readBucket (assignBucket k arr idx) k' = InheritedValue) = (readBucket idx k' = InheritedValue)"
  by (auto simp: readBucket_def lookup_assignBucket split: option.splits if_splits)

subsection \<open>The client handler\<close>

lemma onUploadLoop_step_stored:
  "tb f = Some c \<Longrightarrow> readBucket idx (norm (fileBaseName (file_name f))) \<noteq> InheritedValue \<Longrightarrow>
   onUploadLoop norm tb (f # fs) idx failed =
     onUploadLoop norm tb fs
       (assignBucket (norm (fileBaseName (file_name f)))
          ((case lookupBucket idx (norm (fileBaseName (file_name f))) of
              Some arr \<Rightarrow> arr | None \<Rightarrow> []) @ [entryOf f c]) idx)
       failed"
  by (auto simp: readBucket_def Let_def split: option.splits if_splits)

lemma onUploadLoop_step_failed:
  "tb f = None \<or> readBucket idx (norm (fileBaseName (file_name f))) = InheritedValue \<Longrightarrow>
   onUploadLoop norm tb (f # fs) idx failed =
     onUploadLoop norm tb fs idx (failed @ [failedLabel f])"
  by (auto simp: Let_def split: option.splits)

text \<open>
  The failed list of the client loop: the files whose decoding fails and the files whose
  key is read from the prototype of the index the loop starts from.
\<close>

lemma onUploadLoop_failed:
  "snd (onUploadLoop norm tb fs idx failed)
     = failed @ map failedLabel
         (filter (\<lambda>f. tb f = None
                    \<or> readBucket idx (norm (fileBaseName (file_name f))) = InheritedValue) fs)"
proof (induction fs arbitrary: idx failed)
  case Nil
  then show ?case by simp
next
  case (Cons f fs)
  let ?k = "norm (fileBaseName (file_name f))"
  show ?case
  proof (cases "tb f = None \<or> readBucket idx ?k = InheritedValue")
    case True
    then show ?thesis
      using Cons.IH [of idx "failed @ [failedLabel f]"]
      by (simp only: onUploadLoop_step_failed [of tb f idx norm fs failed, OF True]) auto
  next
    case False
    then obtain c where c: "tb f = Some c" and r: "readBucket idx ?k \<noteq> InheritedValue" by auto
    let ?idx = "assignBucket ?k
          ((case lookupBucket idx ?k of Some arr \<Rightarrow> arr | None \<Rightarrow> []) @ [entryOf f c]) idx"
    have same: "(readBucket ?idx k' = InheritedValue) = (readBucket idx k' = InheritedValue)" for k'
      using r by (rule inherited_after_assign)
    show ?thesis
      using False Cons.IH [of ?idx failed]
      by (simp only: onUploadLoop_step_stored [of tb f c idx norm fs failed, OF c r]) (simp add: same)
  qed
qed

text \<open>The entries the client loop adds under one key, in upload order.\<close>

lemma onUploadLoop_bucket:
  "lookupBucket (fst (onUploadLoop norm tb fs idx failed)) k =
     (let add = concat (map (\<lambda>f. case tb f of
                                   Some c \<Rightarrow> if norm (fileBaseName (file_name f)) = k
                                                \<and> readBucket idx k \<noteq> InheritedValue
                                             then [entryOf f c] else []
                                 | None \<Rightarrow> []) fs)
      in case lookupBucket idx k of
           Some old \<Rightarrow> Some (old @ add)
         | None \<Rightarrow> if add = [] then None else Some add)"
proof (induction fs arbitrary: idx failed)
  case Nil
  then show ?case by (simp split: option.splits)
next
  case (Cons f fs)
  let ?k = "norm (fileBaseName (file_name f))"
  let ?g = "\<lambda>f. case tb f of
                  Some c \<Rightarrow> if norm (fileBaseName (file_name f)) = k
                               \<and> readBucket idx k \<noteq> InheritedValue
                            then [entryOf f c] else []
                | None \<Rightarrow> []"
  show ?case
  proof (cases "tb f = None \<or> readBucket idx ?k = InheritedValue")
    case True
    have step: "onUploadLoop norm tb (f # fs) idx failed
        = onUploadLoop norm tb fs idx (failed @ [failedLabel f])"
      using True by (rule onUploadLoop_step_failed)
    from True have gf: "?g f = []"
      by (auto split: option.splits)
    have cc: "concat (map ?g (f # fs)) = concat (map ?g fs)"
      using gf by simp
    show ?thesis
      unfolding step Cons.IH [of idx "failed @ [failedLabel f]"] Let_def cc
      by (rule refl)
  next
    case False
    then obtain c where c: "tb f = Some c" and r: "readBucket idx ?k \<noteq> InheritedValue" by auto
    let ?bucket = "case lookupBucket idx ?k of Some arr \<Rightarrow> arr | None \<Rightarrow> []"
    let ?idx = "assignBucket ?k (?bucket @ [entryOf f c]) idx"
    have step: "onUploadLoop norm tb (f # fs) idx failed = onUploadLoop norm tb fs ?idx failed"
      using c r by (rule onUploadLoop_step_stored)
    have same: "(readBucket ?idx k = InheritedValue) = (readBucket idx k = InheritedValue)"
      using r by (rule inherited_after_assign)
    have ih: "lookupBucket (fst (onUploadLoop norm tb fs ?idx failed)) k =
        (case lookupBucket ?idx k of
           Some old \<Rightarrow> Some (old @ concat (map ?g fs))
         | None \<Rightarrow> if concat (map ?g fs) = [] then None else Some (concat (map ?g fs)))"
      unfolding Cons.IH [of ?idx failed] same by (simp add: Let_def)
    show ?thesis
    proof (cases "k = ?k")
      case True
      from c r True have gf: "?g f = [entryOf f c]" by simp
      have lk: "lookupBucket ?idx k = Some (?bucket @ [entryOf f c])"
        by (simp add: True lookup_assignBucket)
      have "lookupBucket (fst (onUploadLoop norm tb fs ?idx failed)) k
          = Some (?bucket @ [entryOf f c] @ concat (map ?g fs))"
        unfolding ih lk by simp
      moreover have "concat (map ?g (f # fs)) = [entryOf f c] @ concat (map ?g fs)"
        using gf by simp
      ultimately show ?thesis
        unfolding step Let_def
        by (cases "lookupBucket idx ?k") (simp_all add: True del: concat.simps map_eq_conv)
    next
      case False
      from c False have gf: "?g f = []" by auto
      have lk: "lookupBucket ?idx k = lookupBucket idx k"
        using False by (simp add: lookup_assignBucket)
      have cc: "concat (map ?g (f # fs)) = concat (map ?g fs)"
        using gf by simp
      show ?thesis
        unfolding step Let_def ih lk cc by (rule refl)
    qed
  qed
qed

lemma onUploadLoop_commits:
  assumes "f \<in> set fs" and "tb f = Some c"
    and "readBucket idx (norm (fileBaseName (file_name f))) \<noteq> InheritedValue"
  shows "\<exists>b. lookupBucket (fst (onUploadLoop norm tb fs idx failed))
                (norm (fileBaseName (file_name f))) = Some b
             \<and> entryOf f c \<in> set b"
proof -
  let ?k = "norm (fileBaseName (file_name f))"
  let ?g = "\<lambda>f. case tb f of
                  Some c \<Rightarrow> if norm (fileBaseName (file_name f)) = ?k
                               \<and> readBucket idx ?k \<noteq> InheritedValue
                            then [entryOf f c] else []
                | None \<Rightarrow> []"
  let ?add = "concat (map ?g fs)"
  from assms(2,3) have "entryOf f c \<in> set (?g f)" by simp
  with assms(1) have mem: "entryOf f c \<in> set ?add" by auto
  have ne: "?add \<noteq> []"
  proof
    assume e: "?add = []"
    from mem show False unfolding e by simp
  qed
  show ?thesis
  proof (cases "lookupBucket idx ?k")
    case None
    with ne have "lookupBucket (fst (onUploadLoop norm tb fs idx failed)) ?k = Some ?add"
      unfolding onUploadLoop_bucket Let_def by simp
    with mem show ?thesis by blast
  next
    case (Some old)
    then have "lookupBucket (fst (onUploadLoop norm tb fs idx failed)) ?k = Some (old @ ?add)"
      unfolding onUploadLoop_bucket Let_def by simp
    moreover from mem have "entryOf f c \<in> set (old @ ?add)" by simp
    ultimately show ?thesis by blast
  qed
qed

lemma onUploadLoop_keeps:
  "lookupBucket idx k = Some old \<Longrightarrow>
   \<exists>new. lookupBucket (fst (onUploadLoop norm tb fs idx failed)) k = Some (old @ new)"
  unfolding onUploadLoop_bucket Let_def by simp

lemma onUploadLoop_inherited:
  assumes "readBucket idx k = InheritedValue"
  shows "lookupBucket (fst (onUploadLoop norm tb fs idx failed)) k = None"
proof -
  let ?g = "\<lambda>f. case tb f of
                  Some c \<Rightarrow> if norm (fileBaseName (file_name f)) = k
                               \<and> readBucket idx k \<noteq> InheritedValue
                            then [entryOf f c] else []
                | None \<Rightarrow> []"
  from assms have g: "?g f = []" for f
    by (cases "tb f") simp_all
  have add: "concat (map ?g fs) = []"
    unfolding g by simp
  from assms have none: "lookupBucket idx k = None"
    by (auto simp: readBucket_def split: option.splits if_splits)
  show ?thesis
    unfolding onUploadLoop_bucket Let_def add none by simp
qed

text \<open>
  In the client handler a failed decoding never stands in the way of another file: the
  failed list holds the files whose decoding fails and the files whose key is read
  from the prototype of the index, every other file is stored in the bucket of its key,
  and the entries already in the index are kept. A decoded file whose key is read from
  the prototype is reported as failed and stored nowhere.
\<close>

lemma onUpload_partial_success:
  assumes "f \<in> set fs"
  shows "\<exists>out.
           onUpload norm tb val fs = Some out
           \<and> failedNames out = map failedLabel
               (filter (\<lambda>g. tb g = None
                  \<or> readBucket val (norm (fileBaseName (file_name g))) = InheritedValue) fs)
           \<and> (tb f = None \<longrightarrow> failedLabel f \<in> set (failedNames out))
           \<and> (tb f = Some c \<and> readBucket val (norm (fileBaseName (file_name f))) \<noteq> InheritedValue
                \<longrightarrow> (\<exists>b. lookupBucket (onChangeArg out) (norm (fileBaseName (file_name f))) = Some b
                        \<and> entryOf f c \<in> set b))
           \<and> (readBucket val (norm (fileBaseName (file_name f))) = InheritedValue
                \<longrightarrow> failedLabel f \<in> set (failedNames out)
                    \<and> lookupBucket (onChangeArg out) (norm (fileBaseName (file_name f))) = None)
           \<and> (lookupBucket val k = Some old
                \<longrightarrow> (\<exists>new. lookupBucket (onChangeArg out) k = Some (old @ new)))"
proof -
  let ?key = "\<lambda>g. norm (fileBaseName (file_name g))"
  let ?fails = "\<lambda>g. tb g = None \<or> readBucket val (?key g) = InheritedValue"
  from assms have ne: "fs \<noteq> []" by auto
  obtain nxt failed where loop: "onUploadLoop norm tb fs val [] = (nxt, failed)"
    by (cases "onUploadLoop norm tb fs val []")
  let ?out = "\<lparr>uploadError = (if length failed \<noteq> 0 then Some (uploadErrorMessage failed) else None),
               onChangeArg = nxt, failedNames = failed\<rparr>"
  from loop ne have res: "onUpload norm tb val fs = Some ?out"
    by (simp add: onUpload_def)
  from loop have failed: "failedNames ?out = map failedLabel (filter ?fails fs)"
    using onUploadLoop_failed [of norm tb fs val "[]"] by simp
  have lab: "failedLabel f \<in> set (failedNames ?out)" if "?fails f"
    unfolding failed using assms that by auto
  have commit: "\<exists>b. lookupBucket (onChangeArg ?out) (?key f) = Some b \<and> entryOf f c \<in> set b"
    if "tb f = Some c" "readBucket val (?key f) \<noteq> InheritedValue"
    using onUploadLoop_commits [of f fs tb c val norm "[]", OF assms that] loop by simp
  have lost: "lookupBucket (onChangeArg ?out) (?key f) = None"
    if "readBucket val (?key f) = InheritedValue"
    using onUploadLoop_inherited [of val "?key f" norm tb fs "[]", OF that] loop by simp
  have keep: "\<exists>new. lookupBucket (onChangeArg ?out) k = Some (old @ new)"
    if "lookupBucket val k = Some old"
    using onUploadLoop_keeps [of val k old norm tb fs "[]", OF that] loop by simp
  from res failed lab commit lost keep show ?thesis
    by (intro exI [of _ ?out]) simp
qed

text \<open>New array-index keys are enumerated before the other keys, in numeric order.\<close>

lemma assignBucket_order:
  "map fst (assignBucket ''2'' [] (assignBucket ''jane'' [] (assignBucket ''10'' [] [])))
     = [''2'', ''10'', ''jane'']"
  by (simp add: assignBucket_def arrayIndex_def digitOf_def)

text \<open>
  Claim C7. In an upload call a decode failure of one file adds that file's name to the
  failed list and does not prevent any other file of the call from being decoded, keyed
  and appended to the index, and every decoded entry is committed. The server action
  does so for every file. The client handler does not for a file whose key is the name
  of a member of the object prototype: for the decoded file \<open>constructor.pdf\<close> the
  server action returns its entry under the key \<open>constructor\<close> with an empty failed list,
  while the client handler reports the file as failed and hands an index without it to
  \<open>onChange\<close>; the same file under the name \<open>report.pdf\<close> is stored by both. (The
  normaliser is taken to be lower-casing here, which leaves both keys as they are.)
\<close>

theorem onUpload_drops_prototype_key:
  "uploadAttachmentsAction toLowerCase (\<lambda>f. Some ''QUJD'')
       [FileValue \<lparr>file_name = ''constructor.pdf'', file_type = ''application/pdf'',
                   file_size = Some 10\<rparr>]
     = UploadOk [(''constructor'',
                  \<lparr>filename = ''constructor.pdf'', contentBase64 = ''QUJD'',
                   contentType = Some ''application/pdf'', sizeBytes = Some 10\<rparr>)] []
   \<and> onUpload toLowerCase (\<lambda>f. Some ''QUJD'') []
       [\<lparr>file_name = ''constructor.pdf'', file_type = ''application/pdf'', file_size = Some 10\<rparr>]
     = Some \<lparr>uploadError = Some ''Failed: constructor.pdf'', onChangeArg = [],
             failedNames = [''constructor.pdf'']\<rparr>
   \<and> onUpload toLowerCase (\<lambda>f. Some ''QUJD'') []
       [\<lparr>file_name = ''report.pdf'', file_type = ''application/pdf'', file_size = Some 10\<rparr>]
     = Some \<lparr>uploadError = None,
             onChangeArg = [(''report'',
                             [\<lparr>filename = ''report.pdf'', contentBase64 = ''QUJD'',
                               contentType = Some ''application/pdf'', sizeBytes = Some 10\<rparr>])],
             failedNames = []\<rparr>"
proof -
  have k1: "toLowerCase (fileBaseName ''constructor.pdf'') = ''constructor''"
    by (simp add: fileBaseName_def lastIndexOf_def toLowerCase_def toLowerChar_def)
  have k2: "toLowerCase (fileBaseName ''report.pdf'') = ''report''"
    by (simp add: fileBaseName_def lastIndexOf_def toLowerCase_def toLowerChar_def)
  have r1: "readBucket [] ''constructor'' = InheritedValue"
    by (simp add: readBucket_def objectPrototypeKeys_def)
  have r2: "readBucket [] ''report'' = Undefined"
    by (simp add: readBucket_def objectPrototypeKeys_def)
  have a2: "assignBucket ''report'' arr [] = [(''report'', arr)]" for arr
    by (simp add: assignBucket_def arrayIndex_def digitOf_def)
  have msg: "uploadErrorMessage [''constructor.pdf''] = ''Failed: constructor.pdf''"
    by (simp add: uploadErrorMessage_def)
  show ?thesis
    by (simp add: uploadAttachmentsAction_def onUpload_def k1 k2 r1 r2 a2 msg entryOf_def
        orNull_def failedLabel_def orElse_def Let_def)
qed

section \<open>Base-name extraction\<close>

text \<open>
  Claim C3. The base name of a file name is the name without its final extension
  segment, and only a dot that is not the first character starts an extension: a name
  \<open>b.e\<close> with \<open>b\<close> non-empty and no dot in \<open>e\<close> has base name \<open>b\<close>; a name without a
  dot, and a name whose only dot is its first character, are their own base names. In
  particular \<open>report.v2.pdf\<close> gives \<open>report.v2\<close>, \<open>README\<close> gives \<open>README\<close> and
  \<open>.gitignore\<close> gives \<open>.gitignore\<close>.
\<close>

theorem fileBaseName_strips_final_extension:
  "(b \<noteq> [] \<and> CHR ''.'' \<notin> set e \<longrightarrow> fileBaseName (b @ CHR ''.'' # e) = b)
   \<and> (CHR ''.'' \<notin> set nm \<longrightarrow> fileBaseName nm = nm)
   \<and> (CHR ''.'' \<notin> set e \<longrightarrow> fileBaseName (CHR ''.'' # e) = CHR ''.'' # e)
   \<and> fileBaseName ''report.v2.pdf'' = ''report.v2''
   \<and> fileBaseName ''README'' = ''README''
   \<and> fileBaseName ''.gitignore'' = ''.gitignore''"
proof -
  have ext: "fileBaseName (b @ CHR ''.'' # e) = b" if "b \<noteq> []" "CHR ''.'' \<notin> set e"
    using that by (simp add: fileBaseName_def lastIndexOf_last)
  have nodot: "fileBaseName n = n" if "CHR ''.'' \<notin> set n" for n
    using that by (simp add: fileBaseName_def lastIndexOf_absent)
  have lead: "fileBaseName (CHR ''.'' # e) = CHR ''.'' # e" if "CHR ''.'' \<notin> set e"
    using that lastIndexOf_last [of "CHR ''.''" e "[]"] by (simp add: fileBaseName_def)
  have ex1: "fileBaseName ''report.v2.pdf'' = ''report.v2''"
    by (simp add: fileBaseName_def lastIndexOf_def)
  have ex2: "fileBaseName ''README'' = ''README''"
    by (simp add: fileBaseName_def lastIndexOf_def)
  have ex3: "fileBaseName ''.gitignore'' = ''.gitignore''"
    by (simp add: fileBaseName_def lastIndexOf_def)
  show ?thesis
    using ext nodot lead ex1 ex2 ex3 by blast
qed

theorem fileBaseName_strips_final_extension_witness:
  "''a.b'' \<noteq> [] \<and> CHR ''.'' \<notin> set ''tar'' \<and> fileBaseName (''a.b'' @ CHR ''.'' # ''tar'') = ''a.b''
   \<and> CHR ''.'' \<notin> set ''Makefile'' \<and> fileBaseName ''Makefile'' = ''Makefile''
   \<and> CHR ''.'' \<notin> set ''env'' \<and> fileBaseName (CHR ''.'' # ''env'') = CHR ''.'' # ''env''"
  using fileBaseName_strips_final_extension [of "''a.b''" "''tar''" "''Makefile''"]
    fileBaseName_strips_final_extension [of "''a.b''" "''env''" "''Makefile''"]
  by simp

end
